theory Spec2Isabelle
  imports Complex_Main
begin

section \<open>Data model (migration SQL and \<open>restaurants.server.ts\<close>)\<close>

text \<open>
  Row identifiers of \<open>DinnerGroup\<close> and \<open>Attendee\<close> are opaque primary keys generated
  by the database client on insert; they are modelled as values drawn from a sequence counter
  kept with the tables. Person and venue identifiers are the strings the callers pass in.
  Timestamps are numbers handed to the operation that inserts a row.
\<close>

type_synonym ident = nat

record restaurant =
  r_id :: string
  r_name :: string
  r_priceLevel :: "int option"
  r_rating :: "real option"
  r_lat :: real
  r_lng :: real
  r_photoRef :: "string option"
  r_mapsUrl :: "string option"

record restaurantRow =
  rr_data :: restaurant
  rr_createdAt :: nat
  rr_updatedAt :: nat

record dinnerGroup =
  dg_id :: ident
  dg_restaurantId :: string
  dg_notes :: "string option"
  dg_createdAt :: nat

record attendee =
  at_id :: ident
  at_userId :: string
  at_dinnerGroupId :: ident
  at_createdAt :: nat

text \<open>
  The store: the \<open>User\<close> table (only its keys, which \<open>Attendee.userId\<close> references),
  the three tables of the migration, and the identifier sequence.
\<close>

record db =
  users :: "string list"
  restaurants :: "restaurantRow list"
  dinnerGroups :: "dinnerGroup list"
  attendees :: "attendee list"
  idSeq :: nat

text \<open>
  Errors: \<open>InvariantError\<close> is what \<open>invariant(...)\<close> throws (the specification calls
  it InvalidArgument); the others are the store's failures.
\<close>

datatype error =
    InvariantError string
  | RecordNotFound
  | UniqueConstraint
  | ForeignKeyConstraint
  | UpstreamFailure

section \<open>Store operations used by the membership code\<close>

definition attendee_findUnique :: "string \<Rightarrow> db \<Rightarrow> attendee option" where
  "attendee_findUnique u d = find (\<lambda>a. at_userId a = u) (attendees d)"

definition dinnerGroup_findById :: "ident \<Rightarrow> db \<Rightarrow> dinnerGroup option" where
  "dinnerGroup_findById i d = find (\<lambda>g. dg_id g = i) (dinnerGroups d)"

definition dinnerGroup_findByRestaurant :: "string \<Rightarrow> db \<Rightarrow> dinnerGroup option" where
  "dinnerGroup_findByRestaurant r d = find (\<lambda>g. dg_restaurantId g = r) (dinnerGroups d)"

text \<open>\<open>attendee.delete({ where: { userId } })\<close>: fails when no row matches.\<close>

definition attendee_delete :: "string \<Rightarrow> db \<Rightarrow> error + db" where
  "attendee_delete u d =
     (if \<exists>a \<in> set (attendees d). at_userId a = u
      then Inr (d\<lparr>attendees := filter (\<lambda>a. at_userId a \<noteq> u) (attendees d)\<rparr>)
      else Inl RecordNotFound)"

definition attendee_count :: "ident \<Rightarrow> db \<Rightarrow> nat" where
  "attendee_count i d = length (filter (\<lambda>a. at_dinnerGroupId a = i) (attendees d))"

text \<open>
  \<open>dinnerGroup.delete({ where: { id } })\<close>: fails when no row matches; the foreign key
  \<open>Attendee_dinnerGroupId_fkey\<close> is \<open>ON DELETE CASCADE\<close>.
\<close>

definition dinnerGroup_delete :: "ident \<Rightarrow> db \<Rightarrow> error + db" where
  "dinnerGroup_delete i d =
     (if \<exists>g \<in> set (dinnerGroups d). dg_id g = i
      then Inr (d\<lparr>dinnerGroups := filter (\<lambda>g. dg_id g \<noteq> i) (dinnerGroups d),
                  attendees := filter (\<lambda>a. at_dinnerGroupId a \<noteq> i) (attendees d)\<rparr>)
      else Inl RecordNotFound)"

text \<open>
  \<open>dinnerGroup.upsert({ where: { restaurantId }, update: {}, create: { restaurantId } })\<close>:
  the existing row unchanged, or a new row with a generated id, no note and the current
  time; the insert is subject to \<open>DinnerGroup_restaurantId_fkey\<close>.
\<close>

definition dinnerGroup_upsert :: "nat \<Rightarrow> string \<Rightarrow> db \<Rightarrow> (error + dinnerGroup) \<times> db" where
  "dinnerGroup_upsert now r d =
     (case dinnerGroup_findByRestaurant r d of
        Some g \<Rightarrow> (Inr g, d)
      | None \<Rightarrow>
          if \<not> (\<exists>x \<in> set (restaurants d). r_id (rr_data x) = r)
          then (Inl ForeignKeyConstraint, d)
          else
            let g = \<lparr>dg_id = idSeq d, dg_restaurantId = r, dg_notes = None, dg_createdAt = now\<rparr>
            in (Inr g, d\<lparr>dinnerGroups := dinnerGroups d @ [g], idSeq := Suc (idSeq d)\<rparr>))"

text \<open>
  \<open>attendee.create({ data: { userId, dinnerGroupId } })\<close>, subject to the unique index
  \<open>Attendee_userId_key\<close> and to the two foreign keys of the table.
\<close>

definition attendee_create :: "nat \<Rightarrow> string \<Rightarrow> ident \<Rightarrow> db \<Rightarrow> (error + attendee) \<times> db" where
  "attendee_create now u i d =
     (if \<exists>a \<in> set (attendees d). at_userId a = u then (Inl UniqueConstraint, d)
      else if u \<notin> set (users d) then (Inl ForeignKeyConstraint, d)
      else if \<not> (\<exists>g \<in> set (dinnerGroups d). dg_id g = i) then (Inl ForeignKeyConstraint, d)
      else
        let a = \<lparr>at_id = idSeq d, at_userId = u, at_dinnerGroupId = i, at_createdAt = now\<rparr>
        in (Inr a, d\<lparr>attendees := attendees d @ [a], idSeq := Suc (idSeq d)\<rparr>))"

section \<open>\<open>leaveDinnerGroup\<close> and \<open>joinDinnerGroup\<close>\<close>

text \<open>
  Each operation returns its result (or the error it throws) together with the store as
  it is left: the store calls are separate statements, so what was written before a failure
  stays written.
\<close>

definition leaveDinnerGroup :: "string \<Rightarrow> db \<Rightarrow> (error + dinnerGroup option) \<times> db" where
  "leaveDinnerGroup userId d =
     (if userId = [] then (Inl (InvariantError ''userId is required''), d)
      else case attendee_findUnique userId d of
        None \<Rightarrow> (Inr None, d)
      | Some a \<Rightarrow>
         (case dinnerGroup_findById (at_dinnerGroupId a) d of
            None \<Rightarrow> (Inl RecordNotFound, d)
          | Some g \<Rightarrow>
             (case attendee_delete userId d of
                Inl e \<Rightarrow> (Inl e, d)
              | Inr d1 \<Rightarrow>
                  if attendee_count (at_dinnerGroupId a) d1 = 0
                  then (case dinnerGroup_delete (at_dinnerGroupId a) d1 of
                          Inl e \<Rightarrow> (Inl e, d1)
                        | Inr d2 \<Rightarrow> (Inr (Some g), d2))
                  else (Inr (Some g), d1))))"

definition joinDinnerGroup :: "nat \<Rightarrow> string \<Rightarrow> string \<Rightarrow> db \<Rightarrow> (error + dinnerGroup) \<times> db" where
  "joinDinnerGroup now userId restaurantId d =
     (if userId = [] then (Inl (InvariantError ''userId is required''), d)
      else if restaurantId = [] then (Inl (InvariantError ''restaurantId is required''), d)
      else case leaveDinnerGroup userId d of
        (Inl e, d1) \<Rightarrow> (Inl e, d1)
      | (Inr _, d1) \<Rightarrow>
         (case dinnerGroup_upsert now restaurantId d1 of
            (Inl e, d2) \<Rightarrow> (Inl e, d2)
          | (Inr g, d2) \<Rightarrow>
             (case attendee_create now userId (dg_id g) d2 of
                (Inl e, d3) \<Rightarrow> (Inl e, d3)
              | (Inr _, d3) \<Rightarrow> (Inr g, d3))))"

section \<open>Constraints of the schema and the group-lifecycle invariant\<close>

text \<open>
  What the store enforces by itself: the primary keys, the unique indexes
  \<open>Attendee_userId_key\<close> and \<open>DinnerGroup_restaurantId_key\<close>, the foreign keys, and
  that generated identifiers are new.
\<close>

definition wf_db :: "db \<Rightarrow> bool" where
  "wf_db d \<longleftrightarrow>
     distinct (map at_userId (attendees d)) \<and>
     distinct (map dg_restaurantId (dinnerGroups d)) \<and>
     distinct (map dg_id (dinnerGroups d)) \<and>
     distinct (map at_id (attendees d)) \<and>
     distinct (map (\<lambda>x. r_id (rr_data x)) (restaurants d)) \<and>
     list_all (\<lambda>a. (\<exists>g \<in> set (dinnerGroups d). dg_id g = at_dinnerGroupId a) \<and>
                    at_userId a \<in> set (users d) \<and> at_id a < idSeq d) (attendees d) \<and>
     list_all (\<lambda>g. (\<exists>x \<in> set (restaurants d). r_id (rr_data x) = dg_restaurantId g) \<and>
                    dg_id g < idSeq d) (dinnerGroups d)"

text \<open>No group without an attendee: kept by the code, not by the store.\<close>

definition no_empty_groups :: "db \<Rightarrow> bool" where
  "no_empty_groups d \<longleftrightarrow>
     list_all (\<lambda>g. \<exists>a \<in> set (attendees d). at_dinnerGroupId a = dg_id g) (dinnerGroups d)"

text \<open>The person \<open>u\<close> is the only attendee of the group \<open>i\<close> (or the group has none).\<close>

definition sole_attendee :: "string \<Rightarrow> ident \<Rightarrow> db \<Rightarrow> bool" where
  "sole_attendee u i d \<longleftrightarrow>
     list_all (\<lambda>a. at_dinnerGroupId a = i \<longrightarrow> at_userId a = u) (attendees d)"

text \<open>
  The venue a person attends, as \<open>getAllRestaurantDetails\<close> reads it (lines 121 to 130):
  \<open>attendee.findUnique({ where: { userId }, include: { dinnerGroup: true } })\<close> and then
  \<open>userAttendee.dinnerGroup.restaurantId\<close>. An absent or empty \<open>userId\<close> skips the read.
\<close>

definition userAttendingRestaurantId :: "string option \<Rightarrow> db \<Rightarrow> error + string option" where
  "userAttendingRestaurantId userId d =
     (case userId of
        None \<Rightarrow> Inr None
      | Some u \<Rightarrow>
          if u = [] then Inr None
          else case attendee_findUnique u d of
            None \<Rightarrow> Inr None
          | Some a \<Rightarrow>
             (case dinnerGroup_findById (at_dinnerGroupId a) d of
                None \<Rightarrow> Inl RecordNotFound
              | Some g \<Rightarrow> Inr (Some (dg_restaurantId g))))"

section \<open>Sequences of operations\<close>

datatype op = Join nat string string | Leave string

fun apply_op :: "op \<Rightarrow> db \<Rightarrow> (error + dinnerGroup option) \<times> db" where
  "apply_op (Join now u r) d =
     (case joinDinnerGroup now u r d of
        (Inl e, d') \<Rightarrow> (Inl e, d')
      | (Inr g, d') \<Rightarrow> (Inr (Some g), d'))"
| "apply_op (Leave u) d = leaveDinnerGroup u d"

text \<open>The store before the first operation and after each one, in order.\<close>

fun run_states :: "op list \<Rightarrow> db \<Rightarrow> db list" where
  "run_states [] d = [d]"
| "run_states (x # xs) d = d # run_states xs (snd (apply_op x d))"

text \<open>
  A call is settled when it returned normally, or when it was a join made for a person
  who has a \<open>User\<close> row, or a leave. The calls left out are the joins for a person with
  no \<open>User\<close> row that throw.
\<close>

definition call_settled :: "op \<Rightarrow> db \<Rightarrow> bool" where
  "call_settled x d =
     (case fst (apply_op x d) of
        Inr _ \<Rightarrow> True
      | Inl _ \<Rightarrow> (case x of Join now u r \<Rightarrow> u \<in> set (users d) | Leave u \<Rightarrow> True))"

fun all_settled :: "op list \<Rightarrow> db \<Rightarrow> bool" where
  "all_settled [] d = True"
| "all_settled (x # xs) d = (call_settled x d \<and> all_settled xs (snd (apply_op x d)))"

text \<open>A \<open>DinnerGroup\<close> row exists for the venue; some attendee references a group of the venue.\<close>

definition group_exists :: "string \<Rightarrow> db \<Rightarrow> bool" where
  "group_exists v d \<longleftrightarrow> (\<exists>g \<in> set (dinnerGroups d). dg_restaurantId g = v)"

definition venue_attended :: "string \<Rightarrow> db \<Rightarrow> bool" where
  "venue_attended v d \<longleftrightarrow>
     (\<exists>a \<in> set (attendees d). \<exists>g \<in> set (dinnerGroups d).
        dg_id g = at_dinnerGroupId a \<and> dg_restaurantId g = v)"

text \<open>Who attends which venue: the person of every \<open>Attendee\<close> row with the venue of its group.\<close>

definition memberships :: "db \<Rightarrow> (string \<times> string option) list" where
  "memberships d =
     map (\<lambda>a. (at_userId a, map_option dg_restaurantId (dinnerGroup_findById (at_dinnerGroupId a) d)))
       (attendees d)"

section \<open>The stores between the store calls of one operation\<close>

text \<open>
  \<open>leaveDinnerGroup\<close> and \<open>joinDinnerGroup\<close> await their store calls one by one, outside
  any transaction, so another request can read the store between two of them. The traces
  list the store after each store call the operation makes, in the order of the source:
  \<open>findUnique\<close>, \<open>attendee.delete\<close>, \<open>attendee.count\<close>, \<open>dinnerGroup.delete\<close>
  for leave; then \<open>dinnerGroup.upsert\<close> and \<open>attendee.create\<close> for join. A call that
  fails leaves the store as it was.
\<close>

definition leaveDinnerGroup_trace :: "string \<Rightarrow> db \<Rightarrow> db list" where
  "leaveDinnerGroup_trace userId d =
     (if userId = [] then []
      else case attendee_findUnique userId d of
        None \<Rightarrow> [d]
      | Some a \<Rightarrow>
         (case dinnerGroup_findById (at_dinnerGroupId a) d of
            None \<Rightarrow> [d]
          | Some g \<Rightarrow>
             (case attendee_delete userId d of
                Inl e \<Rightarrow> [d, d]
              | Inr d1 \<Rightarrow>
                  if attendee_count (at_dinnerGroupId a) d1 = 0
                  then (case dinnerGroup_delete (at_dinnerGroupId a) d1 of
                          Inl e \<Rightarrow> [d, d1, d1, d1]
                        | Inr d2 \<Rightarrow> [d, d1, d1, d2])
                  else [d, d1, d1])))"

definition joinDinnerGroup_trace :: "nat \<Rightarrow> string \<Rightarrow> string \<Rightarrow> db \<Rightarrow> db list" where
  "joinDinnerGroup_trace now userId restaurantId d =
     (if userId = [] then []
      else if restaurantId = [] then []
      else leaveDinnerGroup_trace userId d @
        (case leaveDinnerGroup userId d of
           (Inl e, d1) \<Rightarrow> []
         | (Inr _, d1) \<Rightarrow>
            (case dinnerGroup_upsert now restaurantId d1 of
               (Inl e, d2) \<Rightarrow> [d2]
             | (Inr g, d2) \<Rightarrow> [d2, snd (attendee_create now userId (dg_id g) d2)])))"

section \<open>\<open>calculateDistance\<close>\<close>

text \<open>
  The source computes in IEEE double precision; the model computes the same formula over
  the real numbers, so it says what the formula yields, not how the floating-point
  operations round. \<open>Math.atan2\<close> and the final \<open>parseFloat(distance.toFixed(1))\<close> are
  written out: \<open>toFixed(1)\<close> takes the nearest multiple of one tenth of the magnitude, the
  larger one at a tie, and keeps the sign.
\<close>

definition atan2 :: "real \<Rightarrow> real \<Rightarrow> real" where
  "atan2 y x =
     (if 0 < x then arctan (y / x)
      else if x < 0 then (if 0 \<le> y then arctan (y / x) + pi else arctan (y / x) - pi)
      else if 0 < y then pi / 2
      else if y < 0 then - (pi / 2)
      else 0)"

definition toFixed1 :: "real \<Rightarrow> real" where
  "toFixed1 x =
     (if x < 0 then - (real_of_int (round (- x * 10)) / 10)
      else real_of_int (round (x * 10)) / 10)"

text \<open>The local \<open>distance\<close> of \<open>calculateDistance\<close>, before rounding.\<close>

definition haversine_miles :: "real \<Rightarrow> real \<Rightarrow> real \<Rightarrow> real \<Rightarrow> real" where
  "haversine_miles lat1 lng1 lat2 lng2 =
     (let R = 39588 / 10;
          dLat = (lat2 - lat1) * pi / 180;
          dLng = (lng2 - lng1) * pi / 180;
          a = sin (dLat / 2) * sin (dLat / 2) +
              cos (lat1 * pi / 180) * cos (lat2 * pi / 180) *
              sin (dLng / 2) * sin (dLng / 2);
          c = 2 * atan2 (sqrt a) (sqrt (1 - a))
      in R * c)"

definition calculateDistance :: "real \<Rightarrow> real \<Rightarrow> real \<Rightarrow> real \<Rightarrow> real" where
  "calculateDistance lat1 lng1 lat2 lng2 = toFixed1 (haversine_miles lat1 lng1 lat2 lng2)"

section \<open>The venue cache and \<open>getAllRestaurantDetails\<close>\<close>

text \<open>
  \<open>restaurant.upsert({ where: { id }, update: {...}, create: {...} })\<close>. The adapter
  leaves an optional field undefined when the provider has none; in \<open>update\<close> an
  undefined field is not written, in \<open>create\<close> it becomes null. \<open>updatedAt\<close> is set on
  both paths.
\<close>

definition keep_or :: "'a option \<Rightarrow> 'a option \<Rightarrow> 'a option" where
  "keep_or new old = (case new of None \<Rightarrow> old | Some v \<Rightarrow> Some v)"

definition restaurant_upsert :: "nat \<Rightarrow> restaurant \<Rightarrow> db \<Rightarrow> db" where
  "restaurant_upsert now r d =
     (if \<exists>x \<in> set (restaurants d). r_id (rr_data x) = r_id r
      then d\<lparr>restaurants :=
             map (\<lambda>x. if r_id (rr_data x) = r_id r
                       then x\<lparr>rr_data :=
                              \<lparr>r_id = r_id r, r_name = r_name r,
                               r_priceLevel = keep_or (r_priceLevel r) (r_priceLevel (rr_data x)),
                               r_rating = keep_or (r_rating r) (r_rating (rr_data x)),
                               r_lat = r_lat r, r_lng = r_lng r,
                               r_photoRef = keep_or (r_photoRef r) (r_photoRef (rr_data x)),
                               r_mapsUrl = keep_or (r_mapsUrl r) (r_mapsUrl (rr_data x))\<rparr>,
                            rr_updatedAt := now\<rparr>
                       else x)
               (restaurants d)\<rparr>
      else d\<lparr>restaurants := restaurants d @
               [\<lparr>rr_data = r, rr_createdAt = now, rr_updatedAt = now\<rparr>]\<rparr>)"

text \<open>
  The batch loop of \<open>fetchAndUpsertRestaurants\<close>: \<open>for (let i = 0; i < length; i += 20)\<close>
  over \<open>restaurants.slice(i, i + 20)\<close>. The upserts of one batch are issued together; the
  model applies them in list order.
\<close>

function upsertBatches :: "nat \<Rightarrow> restaurant list \<Rightarrow> nat \<Rightarrow> db \<Rightarrow> db" where
  "upsertBatches now rs i d =
     (if i < length rs
      then upsertBatches now rs (i + 20)
             (foldl (\<lambda>d' r. restaurant_upsert now r d') d (take 20 (drop i rs)))
      else d)"
  by pat_completeness auto
termination
  by (relation "measure (\<lambda>(now, rs, i, d). length rs - i)") auto

text \<open>
  The process-wide state the service works on: the in-memory cache, the store, and a count
  of the calls made to the external adapter \<open>getNearbyRestaurants\<close>. The adapter is an
  HTTP lookup; it is taken as a parameter, a function of the time of the call and of its
  arguments that returns the venues or fails.
\<close>

record cacheEntry =
  ce_value :: "restaurant list"
  ce_createdTime :: nat

record world =
  lru :: "string \<rightharpoonup> cacheEntry"
  store :: db
  adapterCalls :: nat

type_synonym adapter = "nat \<Rightarrow> real \<Rightarrow> real \<Rightarrow> real \<Rightarrow> error + restaurant list"

definition RESTAURANTS_TTL :: nat where
  "RESTAURANTS_TTL = 1000 * 60 * 60 * 4"

text \<open>
  Modelled from the spec: \<open>cachified\<close> and \<open>lruCache\<close> of \<open>#app/utils/cache.server\<close>,
  which is not among the sources. Section 4.1: if a value exists for the key and its age is
  under the freshness window, it is returned without touching the adapter or the store;
  otherwise the fresh value is computed, cached and returned. Section 5: a failed
  computation leaves no entry.
\<close>

definition cachified ::
  "string \<Rightarrow> nat \<Rightarrow> nat \<Rightarrow> (world \<Rightarrow> (error + restaurant list) \<times> world) \<Rightarrow> world
     \<Rightarrow> (error + restaurant list) \<times> world" where
  "cachified key ttl now getFreshValue w =
     (case lru w key of
        Some e \<Rightarrow>
          if now - ce_createdTime e < ttl then (Inr (ce_value e), w)
          else (case getFreshValue w of
                  (Inl err, w') \<Rightarrow> (Inl err, w')
                | (Inr v, w') \<Rightarrow>
                    (Inr v, w'\<lparr>lru := (lru w')(key \<mapsto> \<lparr>ce_value = v, ce_createdTime = now\<rparr>)\<rparr>))
      | None \<Rightarrow>
          (case getFreshValue w of
             (Inl err, w') \<Rightarrow> (Inl err, w')
           | (Inr v, w') \<Rightarrow>
               (Inr v, w'\<lparr>lru := (lru w')(key \<mapsto> \<lparr>ce_value = v, ce_createdTime = now\<rparr>)\<rparr>)))"

definition fetchAndUpsertRestaurants ::
  "adapter \<Rightarrow> nat \<Rightarrow> real \<Rightarrow> real \<Rightarrow> real \<Rightarrow> world \<Rightarrow> (error + restaurant list) \<times> world" where
  "fetchAndUpsertRestaurants getNearbyRestaurants now lat lng radius w =
     (case getNearbyRestaurants now lat lng radius of
        Inl e \<Rightarrow> (Inl e, w\<lparr>adapterCalls := Suc (adapterCalls w)\<rparr>)
      | Inr rs \<Rightarrow>
          (Inr rs, w\<lparr>adapterCalls := Suc (adapterCalls w),
                      store := upsertBatches now rs 0 (store w)\<rparr>))"

text \<open>
  The cache key \<open>`all-restaurants:${lat}:${lng}:${radius}`\<close>; the conversion of a number
  to its decimal text is the parameter \<open>numStr\<close>.
\<close>

definition cache_key :: "(real \<Rightarrow> string) \<Rightarrow> real \<Rightarrow> real \<Rightarrow> real \<Rightarrow> string" where
  "cache_key numStr lat lng radius =
     ''all-restaurants'' @ '':'' @ numStr lat @ '':'' @ numStr lng @ '':'' @ numStr radius"

text \<open>The parameter default \<open>radius = 8047\<close> (5 miles in meters).\<close>

definition radius_of :: "real option \<Rightarrow> real" where
  "radius_of radiusOpt = (case radiusOpt of None \<Rightarrow> 8047 | Some x \<Rightarrow> x)"

record restaurantWithDetails = restaurant +
  distance :: real
  attendeeCount :: nat
  isUserAttending :: bool

definition getAllRestaurantDetails ::
  "(real \<Rightarrow> string) \<Rightarrow> adapter \<Rightarrow> nat \<Rightarrow> real \<Rightarrow> real \<Rightarrow> real option \<Rightarrow> string option \<Rightarrow> world
     \<Rightarrow> (error + restaurantWithDetails list) \<times> world" where
  "getAllRestaurantDetails numStr getNearbyRestaurants now lat lng radiusOpt userId w =
     (let radius = radius_of radiusOpt in
      case cachified (cache_key numStr lat lng radius) RESTAURANTS_TTL now
             (fetchAndUpsertRestaurants getNearbyRestaurants now lat lng radius) w of
        (Inl e, w1) \<Rightarrow> (Inl e, w1)
      | (Inr rs, w1) \<Rightarrow>
         (case userAttendingRestaurantId userId (store w1) of
            Inl e \<Rightarrow> (Inl e, w1)
          | Inr attending \<Rightarrow>
             (Inr (map (\<lambda>r. restaurant.extend r
                        (restaurantWithDetails.fields
                           (calculateDistance lat lng (r_lat r) (r_lng r))
                           (case dinnerGroup_findByRestaurant (r_id r) (store w1) of
                              None \<Rightarrow> 0
                            | Some g \<Rightarrow> attendee_count (dg_id g) (store w1))
                           (attending = Some (r_id r))))
                     rs),
              w1)))"

text \<open>The cache holds a value for the key whose age at time \<open>t\<close> is under the window.\<close>

definition has_fresh :: "string \<Rightarrow> nat \<Rightarrow> world \<Rightarrow> bool" where
  "has_fresh key t w =
     (case lru w key of None \<Rightarrow> False | Some e \<Rightarrow> t - ce_createdTime e < RESTAURANTS_TTL)"

section \<open>A small store for concrete runs\<close>

definition venue :: "string \<Rightarrow> restaurantRow" where
  "venue i = \<lparr>rr_data = \<lparr>r_id = i, r_name = i, r_priceLevel = None, r_rating = None,
                 r_lat = 0, r_lng = 0, r_photoRef = None, r_mapsUrl = None\<rparr>,
              rr_createdAt = 0, rr_updatedAt = 0\<rparr>"

definition db0 :: db where
  "db0 = \<lparr>users = [''ann'', ''bob''], restaurants = [venue ''v1'', venue ''v2''],
          dinnerGroups = [], attendees = [], idSeq = 0\<rparr>"

text \<open>An adapter that always finds the one venue \<open>v1\<close>, and an empty cache.\<close>

definition adapter0 :: adapter where
  "adapter0 t lat lng radius = Inr [rr_data (venue ''v1'')]"

definition numStr0 :: "real \<Rightarrow> string" where
  "numStr0 x = (if x = 8047 then ''8047'' else ''0'')"

definition world0 :: world where
  "world0 = \<lparr>lru = Map.empty, store = db0, adapterCalls = 0\<rparr>"

section \<open>The store operations keep the constraints\<close>

lemma attendee_delete_wf:
  "wf_db d \<Longrightarrow> attendee_delete u d = Inr d1 \<Longrightarrow> wf_db d1"
  by (auto simp: wf_db_def attendee_delete_def list_all_iff distinct_map_filter split: if_splits)

lemma dinnerGroup_delete_wf:
  "wf_db d \<Longrightarrow> dinnerGroup_delete i d = Inr d1 \<Longrightarrow> wf_db d1"
  apply (auto simp: wf_db_def dinnerGroup_delete_def list_all_iff distinct_map_filter
      split: if_splits)
  by metis

lemma dinnerGroup_upsert_wf:
  "wf_db d \<Longrightarrow> wf_db (snd (dinnerGroup_upsert now r d))"
  by (auto simp: wf_db_def dinnerGroup_upsert_def dinnerGroup_findByRestaurant_def list_all_iff
      Let_def find_None_iff split: option.splits if_splits)

lemma attendee_create_wf:
  "wf_db d \<Longrightarrow> wf_db (snd (attendee_create now u i d))"
  by (auto simp: wf_db_def attendee_create_def list_all_iff Let_def)

lemma leaveDinnerGroup_wf:
  "wf_db d \<Longrightarrow> wf_db (snd (leaveDinnerGroup u d))"
  by (auto simp: leaveDinnerGroup_def split: option.splits sum.splits
      dest: attendee_delete_wf dinnerGroup_delete_wf)

lemma joinDinnerGroup_wf:
  assumes w: "wf_db d"
  shows "wf_db (snd (joinDinnerGroup now u r d))"
proof -
  have w1: "wf_db (snd (leaveDinnerGroup u d))"
    using w by (rule leaveDinnerGroup_wf)
  have w2: "\<And>d'. wf_db d' \<Longrightarrow> wf_db (snd (dinnerGroup_upsert now r d'))"
    by (rule dinnerGroup_upsert_wf)
  have w3: "\<And>d' i. wf_db d' \<Longrightarrow> wf_db (snd (attendee_create now u i d'))"
    by (rule attendee_create_wf)
  show ?thesis using w w1 w2 w3
    by (auto simp: joinDinnerGroup_def split: prod.splits sum.splits) (metis snd_conv)+
qed

section \<open>What leave and join compute\<close>

lemma find_userId_None:
  "attendee_findUnique u d = None \<longleftrightarrow> (\<forall>a \<in> set (attendees d). at_userId a \<noteq> u)"
  by (auto simp: attendee_findUnique_def find_None_iff)

lemma find_userId_Some:
  "attendee_findUnique u d = Some a \<Longrightarrow> a \<in> set (attendees d) \<and> at_userId a = u"
  by (auto simp: attendee_findUnique_def find_Some_iff)

lemma wf_group_of_attendee:
  "wf_db d \<Longrightarrow> a \<in> set (attendees d) \<Longrightarrow> \<exists>g. dinnerGroup_findById (at_dinnerGroupId a) d = Some g"
  by (cases "dinnerGroup_findById (at_dinnerGroupId a) d")
     (auto simp: wf_db_def list_all_iff dinnerGroup_findById_def find_None_iff)

lemma findById_Some:
  "dinnerGroup_findById i d = Some g \<Longrightarrow> g \<in> set (dinnerGroups d) \<and> dg_id g = i"
  by (auto simp: dinnerGroup_findById_def find_Some_iff)

lemma findByRestaurant_Some:
  "dinnerGroup_findByRestaurant r d = Some g \<Longrightarrow> g \<in> set (dinnerGroups d) \<and> dg_restaurantId g = r"
  by (auto simp: dinnerGroup_findByRestaurant_def find_Some_iff)

lemma findByRestaurant_None:
  "dinnerGroup_findByRestaurant r d = None \<longleftrightarrow> (\<forall>g \<in> set (dinnerGroups d). dg_restaurantId g \<noteq> r)"
  by (auto simp: dinnerGroup_findByRestaurant_def find_None_iff)

lemma leave_unattached:
  "u \<noteq> [] \<Longrightarrow> attendee_findUnique u d = None \<Longrightarrow> leaveDinnerGroup u d = (Inr None, d)"
  by (simp add: leaveDinnerGroup_def)

lemma leave_attending:
  assumes "u \<noteq> []" "attendee_findUnique u d = Some a"
    "dinnerGroup_findById (at_dinnerGroupId a) d = Some g"
  shows "leaveDinnerGroup u d =
     (Inr (Some g),
      if sole_attendee u (dg_id g) d
      then d\<lparr>dinnerGroups := filter (\<lambda>x. dg_id x \<noteq> dg_id g) (dinnerGroups d),
             attendees := filter (\<lambda>a. at_userId a \<noteq> u) (attendees d)\<rparr>
      else d\<lparr>attendees := filter (\<lambda>a. at_userId a \<noteq> u) (attendees d)\<rparr>)"
proof -
  from assms(2) have a: "a \<in> set (attendees d)" "at_userId a = u"
    by (auto dest: find_userId_Some)
  from assms(3) have g: "g \<in> set (dinnerGroups d)" "dg_id g = at_dinnerGroupId a"
    by (auto dest: findById_Some)
  have cnt: "attendee_count (dg_id g) (d\<lparr>attendees := filter (\<lambda>a. at_userId a \<noteq> u) (attendees d)\<rparr>) = 0
     \<longleftrightarrow> sole_attendee u (dg_id g) d"
    by (auto simp: attendee_count_def sole_attendee_def list_all_iff filter_empty_conv)
  have flt: "sole_attendee u (dg_id g) d \<Longrightarrow>
     filter (\<lambda>a. at_dinnerGroupId a \<noteq> dg_id g) (filter (\<lambda>a. at_userId a \<noteq> u) (attendees d))
     = filter (\<lambda>a. at_userId a \<noteq> u) (attendees d)"
    by (auto simp: sole_attendee_def list_all_iff intro!: filter_cong)
  show ?thesis
    using assms a g cnt flt
    by (auto simp: leaveDinnerGroup_def attendee_delete_def dinnerGroup_delete_def)
qed

lemma leave_ok:
  assumes "wf_db d" "u \<noteq> []"
  shows "\<exists>x. fst (leaveDinnerGroup u d) = Inr x"
proof (cases "attendee_findUnique u d")
  case None
  then show ?thesis using assms by (simp add: leave_unattached)
next
  case (Some a)
  then obtain g where "dinnerGroup_findById (at_dinnerGroupId a) d = Some g"
    using assms(1) wf_group_of_attendee find_userId_Some by blast
  then show ?thesis using Some assms(2) by (simp add: leave_attending)
qed

lemma leave_frame:
  "users (snd (leaveDinnerGroup u d)) = users d \<and>
   restaurants (snd (leaveDinnerGroup u d)) = restaurants d \<and>
   idSeq (snd (leaveDinnerGroup u d)) = idSeq d"
  by (auto simp: leaveDinnerGroup_def attendee_delete_def dinnerGroup_delete_def
      split: option.splits if_splits)

lemma leave_attendees:
  assumes "fst (leaveDinnerGroup u d) = Inr x"
  shows "attendees (snd (leaveDinnerGroup u d)) = filter (\<lambda>a. at_userId a \<noteq> u) (attendees d)"
proof (cases "attendee_findUnique u d")
  case None
  then have "filter (\<lambda>a. at_userId a \<noteq> u) (attendees d) = attendees d"
    by (auto simp: find_userId_None)
  then show ?thesis using None assms by (auto simp: leaveDinnerGroup_def split: if_splits)
next
  case (Some a)
  show ?thesis
  proof (cases "dinnerGroup_findById (at_dinnerGroupId a) d")
    case None
    then show ?thesis using Some assms by (auto simp: leaveDinnerGroup_def split: if_splits)
  next
    case (Some g)
    have "u \<noteq> []" using assms by (auto simp: leaveDinnerGroup_def split: if_splits)
    then show ?thesis using leave_attending[OF _ \<open>attendee_findUnique u d = Some a\<close> Some]
      by simp
  qed
qed

lemma join_closed:
  assumes "wf_db d" "u \<noteq> []" "r \<noteq> []" "u \<in> set (users d)"
    "\<exists>x \<in> set (restaurants d). r_id (rr_data x) = r"
  shows "joinDinnerGroup now u r d =
    (let d1 = snd (leaveDinnerGroup u d) in
     case dinnerGroup_findByRestaurant r d1 of
       Some g \<Rightarrow>
         (Inr g, d1\<lparr>attendees := attendees d1 @
                      [\<lparr>at_id = idSeq d1, at_userId = u, at_dinnerGroupId = dg_id g, at_createdAt = now\<rparr>],
                    idSeq := Suc (idSeq d1)\<rparr>)
     | None \<Rightarrow>
         (Inr \<lparr>dg_id = idSeq d1, dg_restaurantId = r, dg_notes = None, dg_createdAt = now\<rparr>,
          d1\<lparr>dinnerGroups := dinnerGroups d1 @
                 [\<lparr>dg_id = idSeq d1, dg_restaurantId = r, dg_notes = None, dg_createdAt = now\<rparr>],
              attendees := attendees d1 @
                 [\<lparr>at_id = Suc (idSeq d1), at_userId = u, at_dinnerGroupId = idSeq d1, at_createdAt = now\<rparr>],
              idSeq := Suc (Suc (idSeq d1))\<rparr>))"
proof -
  obtain x where x: "fst (leaveDinnerGroup u d) = Inr x"
    using leave_ok[OF assms(1,2)] by blast
  define d1 where "d1 = snd (leaveDinnerGroup u d)"
  have l: "leaveDinnerGroup u d = (Inr x, d1)" using x d1_def by (simp add: prod_eq_iff)
  have att: "\<forall>a \<in> set (attendees d1). at_userId a \<noteq> u"
    using leave_attendees[OF x] d1_def by auto
  have fr: "users d1 = users d" "restaurants d1 = restaurants d"
    using leave_frame[of u d] d1_def by auto
  show ?thesis
    using assms l att fr
    by (auto simp: joinDinnerGroup_def Let_def dinnerGroup_upsert_def attendee_create_def
        d1_def[symmetric] dest: findByRestaurant_Some split: option.splits)
qed

lemma join_ok:
  assumes "wf_db d" "u \<noteq> []" "r \<noteq> []" "u \<in> set (users d)"
    "\<exists>x \<in> set (restaurants d). r_id (rr_data x) = r"
  shows "\<exists>g. fst (joinDinnerGroup now u r d) = Inr g"
  unfolding join_closed[OF assms] Let_def by (simp split: option.splits)

lemma upsert_Inr_restaurant:
  assumes "wf_db d" "fst (dinnerGroup_upsert now r d) = Inr g"
  shows "\<exists>x \<in> set (restaurants d). r_id (rr_data x) = r"
proof (cases "dinnerGroup_findByRestaurant r d")
  case None
  then show ?thesis using assms(2)
    by (auto simp: dinnerGroup_upsert_def Let_def split: if_splits)
next
  case (Some g')
  then have "g' \<in> set (dinnerGroups d)" "dg_restaurantId g' = r"
    by (auto dest: findByRestaurant_Some)
  then show ?thesis using assms(1) by (auto simp: wf_db_def list_all_iff)
qed

lemma upsert_frame:
  "users (snd (dinnerGroup_upsert now r d)) = users d \<and>
   restaurants (snd (dinnerGroup_upsert now r d)) = restaurants d \<and>
   attendees (snd (dinnerGroup_upsert now r d)) = attendees d"
  by (auto simp: dinnerGroup_upsert_def Let_def split: option.splits)

lemma create_Inr_user:
  "fst (attendee_create now u i d) = Inr a \<Longrightarrow> u \<in> set (users d)"
  by (auto simp: attendee_create_def Let_def split: if_splits)

lemma join_Inr_args:
  assumes "wf_db d" "fst (joinDinnerGroup now u r d) = Inr g"
  shows "u \<noteq> [] \<and> r \<noteq> [] \<and> u \<in> set (users d) \<and> (\<exists>x \<in> set (restaurants d). r_id (rr_data x) = r)"
proof -
  have ne: "u \<noteq> []" "r \<noteq> []"
    using assms(2) by (auto simp: joinDinnerGroup_def split: if_splits)
  define d1 where "d1 = snd (leaveDinnerGroup u d)"
  have w1: "wf_db d1" unfolding d1_def using assms(1) by (rule leaveDinnerGroup_wf)
  have fr: "users d1 = users d" "restaurants d1 = restaurants d"
    using leave_frame[of u d] d1_def by auto
  obtain x where l: "leaveDinnerGroup u d = (Inr x, d1)"
    using leave_ok[OF assms(1) ne(1)] d1_def by (auto simp: prod_eq_iff)
  obtain y d2 where up: "dinnerGroup_upsert now r d1 = (y, d2)" by (cases "dinnerGroup_upsert now r d1")
  obtain g' where y: "y = Inr g'"
    using assms(2) ne l up by (cases y) (auto simp: joinDinnerGroup_def)
  have r: "\<exists>x \<in> set (restaurants d). r_id (rr_data x) = r"
    using upsert_Inr_restaurant[OF w1, of now r g'] up y fr by simp
  obtain z d3 where cr: "attendee_create now u (dg_id g') d2 = (z, d3)"
    by (cases "attendee_create now u (dg_id g') d2")
  obtain a where "z = Inr a"
    using assms(2) ne l up y cr by (cases z) (auto simp: joinDinnerGroup_def)
  then have "u \<in> set (users d2)" using create_Inr_user[of now u "dg_id g'" d2 a] cr by simp
  moreover have "users d2 = users d1" using upsert_frame[of now r d1] up by simp
  ultimately show ?thesis using ne r fr by simp
qed

section \<open>The group-lifecycle invariant is kept\<close>

lemma leave_no_empty:
  assumes "wf_db d" "no_empty_groups d"
  shows "no_empty_groups (snd (leaveDinnerGroup u d))"
proof (cases "u = []")
  case True
  then show ?thesis using assms by (simp add: leaveDinnerGroup_def)
next
  case False
  show ?thesis
  proof (cases "attendee_findUnique u d")
    case None
    then show ?thesis using assms False by (simp add: leave_unattached)
  next
    case (Some a)
    then obtain g where g: "dinnerGroup_findById (at_dinnerGroupId a) d = Some g"
      using assms(1) wf_group_of_attendee find_userId_Some by blast
    have a: "a \<in> set (attendees d)" "at_userId a = u" using Some by (auto dest: find_userId_Some)
    have gi: "dg_id g = at_dinnerGroupId a" using g by (auto dest: findById_Some)
    have uniq: "\<And>b. b \<in> set (attendees d) \<Longrightarrow> at_userId b = u \<Longrightarrow> b = a"
      using assms(1) a by (auto simp: wf_db_def distinct_map inj_on_def)
    have other: "\<exists>b \<in> set (attendees d). at_userId b \<noteq> u \<and> at_dinnerGroupId b = dg_id h"
      if h: "h \<in> set (dinnerGroups d)" and d: "dg_id h \<noteq> dg_id g \<or> \<not> sole_attendee u (dg_id g) d" for h
    proof (cases "dg_id h = dg_id g")
      case True
      then show ?thesis using d by (auto simp: sole_attendee_def list_all_iff)
    next
      case False
      obtain b where b: "b \<in> set (attendees d)" "at_dinnerGroupId b = dg_id h"
        using assms(2) h by (auto simp: no_empty_groups_def list_all_iff)
      then have "b \<noteq> a" using False gi by auto
      then have "at_userId b \<noteq> u" using uniq b by auto
      then show ?thesis using b by auto
    qed
    show ?thesis
      unfolding leave_attending[OF False Some g]
      using other by (auto simp: no_empty_groups_def list_all_iff)
  qed
qed

lemma join_no_empty:
  assumes "wf_db d" "no_empty_groups d" "fst (joinDinnerGroup now u r d) = Inr g"
  shows "no_empty_groups (snd (joinDinnerGroup now u r d))"
proof -
  have args: "u \<noteq> []" "r \<noteq> []" "u \<in> set (users d)" "\<exists>x \<in> set (restaurants d). r_id (rr_data x) = r"
    using join_Inr_args[OF assms(1,3)] by auto
  define d1 where "d1 = snd (leaveDinnerGroup u d)"
  have ne: "no_empty_groups d1"
    unfolding d1_def using assms(1,2) by (rule leave_no_empty)
  show ?thesis
  proof (cases "dinnerGroup_findByRestaurant r d1")
    case None
    then show ?thesis using ne
      unfolding join_closed[OF assms(1) args] d1_def[symmetric] Let_def
      by (auto simp: no_empty_groups_def list_all_iff)
  next
    case (Some g')
    then show ?thesis using ne
      unfolding join_closed[OF assms(1) args] d1_def[symmetric] Let_def
      by (auto simp: no_empty_groups_def list_all_iff)
  qed
qed

section \<open>Sequences of operations keep the constraints\<close>

lemmas store_defs =
  attendee_findUnique_def dinnerGroup_findById_def dinnerGroup_findByRestaurant_def
  attendee_delete_def attendee_count_def dinnerGroup_delete_def dinnerGroup_upsert_def
  attendee_create_def

lemmas run_defs = joinDinnerGroup_def leaveDinnerGroup_def store_defs db0_def venue_def Let_def

lemma apply_op_wf: "wf_db d \<Longrightarrow> wf_db (snd (apply_op x d))"
proof (cases x)
  case (Join now u r)
  assume "wf_db d"
  then have "wf_db (snd (joinDinnerGroup now u r d))" by (rule joinDinnerGroup_wf)
  then show ?thesis using Join by (auto split: prod.splits sum.splits)
next
  case (Leave u)
  assume "wf_db d"
  then show ?thesis using Leave by (simp add: leaveDinnerGroup_wf)
qed

lemma run_states_wf: "wf_db d \<Longrightarrow> s \<in> set (run_states ops d) \<Longrightarrow> wf_db s"
proof (induction ops arbitrary: d)
  case Nil
  then show ?case by simp
next
  case (Cons x xs)
  have "wf_db (snd (apply_op x d))" using Cons.prems(1) by (rule apply_op_wf)
  then show ?case using Cons by auto
qed

lemma distinct_filter_le1:
  "distinct (map f xs) \<Longrightarrow> length (filter (\<lambda>a. f a = p) xs) \<le> 1"
proof (induction xs)
  case Nil
  then show ?case by simp
next
  case (Cons a xs)
  show ?case
  proof (cases "f a = p")
    case True
    then have "\<forall>x \<in> set xs. f x \<noteq> p" using Cons.prems by (auto simp: image_iff)
    then have "filter (\<lambda>a. f a = p) xs = []" by (simp add: filter_empty_conv)
    then show ?thesis using True by simp
  next
    case False
    then show ?thesis using Cons by simp
  qed
qed

lemma wf_db0: "wf_db db0"
  by (simp add: wf_db_def db0_def venue_def)

lemma last_run_states: "last (run_states ops d) \<in> set (run_states ops d)"
  by (cases ops) auto

section \<open>C1: one membership per person\<close>

text \<open>
  Claim C1. Start from a store that meets the schema's constraints and run any finite
  sequence of join and leave calls, whatever each one returns. In the store before the
  first call and after every call, each person has at most one \<open>Attendee\<close> row.
\<close>

theorem single_membership:
  assumes "wf_db d"
  shows "\<forall>s \<in> set (run_states ops d). length (filter (\<lambda>a. at_userId a = p) (attendees s)) \<le> 1"
proof
  fix s assume "s \<in> set (run_states ops d)"
  then have "wf_db s" using assms run_states_wf by blast
  then have "distinct (map at_userId (attendees s))" by (simp add: wf_db_def)
  then show "length (filter (\<lambda>a. at_userId a = p) (attendees s)) \<le> 1"
    by (rule distinct_filter_le1)
qed

theorem single_membership_witness:
  "wf_db db0 \<and>
   length (filter (\<lambda>a. at_userId a = ''ann'')
     (attendees (last (run_states [Join 1 ''ann'' ''v1'', Join 2 ''ann'' ''v2'', Join 3 ''bob'' ''v2'', Leave ''ann''] db0)))) \<le> 1
   \<and> map at_userId (attendees (last (run_states [Join 1 ''ann'' ''v1'', Join 2 ''ann'' ''v2'', Join 3 ''bob'' ''v2''] db0))) = [''ann'', ''bob'']"
  using single_membership[OF wf_db0, of "[Join 1 ''ann'' ''v1'', Join 2 ''ann'' ''v2'', Join 3 ''bob'' ''v2'', Leave ''ann'']" "''ann''"]
    last_run_states wf_db0
  apply (intro conjI)
    apply simp
   apply blast
  apply (simp add: run_defs)
  done

section \<open>C3: a group exists exactly while it has attendees\<close>

lemma apply_op_no_empty:
  assumes "wf_db d" "no_empty_groups d" "fst (apply_op x d) = Inr y"
  shows "no_empty_groups (snd (apply_op x d))"
proof (cases x)
  case (Join now u r)
  obtain res d' where j: "joinDinnerGroup now u r d = (res, d')"
    by (cases "joinDinnerGroup now u r d")
  then obtain g where "res = Inr g" using assms(3) Join by (cases res) auto
  then have "no_empty_groups (snd (joinDinnerGroup now u r d))"
    using join_no_empty[OF assms(1,2), of now u r g] j by simp
  then show ?thesis using Join j \<open>res = Inr g\<close> by simp
next
  case (Leave u)
  then show ?thesis using assms by (simp add: leave_no_empty)
qed

lemma no_empty_iff:
  assumes "wf_db s" "no_empty_groups s"
  shows "group_exists v s \<longleftrightarrow> venue_attended v s"
  using assms(2) unfolding group_exists_def venue_attended_def no_empty_groups_def list_all_iff
  by metis

lemma last_leaver_deletes_group:
  assumes "wf_db s" "u \<noteq> []" "fst (leaveDinnerGroup u s) = Inr (Some g)"
    "sole_attendee u (dg_id g) s"
  shows "\<not> group_exists (dg_restaurantId g) (snd (leaveDinnerGroup u s))"
proof -
  obtain a where a: "attendee_findUnique u s = Some a"
    using assms(2,3) by (cases "attendee_findUnique u s") (auto simp: leave_unattached)
  then obtain g' where g': "dinnerGroup_findById (at_dinnerGroupId a) s = Some g'"
    using assms(1) wf_group_of_attendee find_userId_Some by blast
  have gg: "g' = g" using assms(3) leave_attending[OF assms(2) a g'] by simp
  have gin: "g \<in> set (dinnerGroups s)" using g' gg by (auto dest: findById_Some)
  have inj: "inj_on dg_restaurantId (set (dinnerGroups s))"
    using assms(1) by (simp add: wf_db_def distinct_map)
  have "\<And>h. h \<in> set (dinnerGroups s) \<Longrightarrow> dg_restaurantId h = dg_restaurantId g \<Longrightarrow> h = g"
    using inj gin by (auto simp: inj_on_def)
  then show ?thesis
    using leave_attending[OF assms(2) a g'] gg assms(4)
    by (auto simp: group_exists_def)
qed

lemma no_empty_db0: "no_empty_groups db0"
  by (simp add: no_empty_groups_def db0_def)

lemma join_Inl_state:
  assumes w: "wf_db d" and u: "u \<in> set (users d)" and f: "fst (joinDinnerGroup now u r d) = Inl e"
  shows "snd (joinDinnerGroup now u r d) = d \<or>
         snd (joinDinnerGroup now u r d) = snd (leaveDinnerGroup u d)"
proof (cases "u = [] \<or> r = []")
  case True
  then show ?thesis by (auto simp: joinDinnerGroup_def)
next
  case False
  then have ne: "u \<noteq> []" "r \<noteq> []" by auto
  define d1 where "d1 = snd (leaveDinnerGroup u d)"
  obtain x where l: "leaveDinnerGroup u d = (Inr x, d1)"
    using leave_ok[OF w ne(1)] d1_def by (auto simp: prod_eq_iff)
  have w1: "wf_db d1" unfolding d1_def using w by (rule leaveDinnerGroup_wf)
  have fr: "restaurants d1 = restaurants d" using leave_frame[of u d] d1_def by simp
  have nor: "\<not> (\<exists>x \<in> set (restaurants d). r_id (rr_data x) = r)"
  proof
    assume "\<exists>x \<in> set (restaurants d). r_id (rr_data x) = r"
    then obtain g where "fst (joinDinnerGroup now u r d) = Inr g"
      using join_ok[OF w ne u] by blast
    then show False using f by simp
  qed
  have "dinnerGroup_findByRestaurant r d1 = None"
  proof (cases "dinnerGroup_findByRestaurant r d1")
    case None
    then show ?thesis .
  next
    case (Some g)
    then have "g \<in> set (dinnerGroups d1)" "dg_restaurantId g = r"
      by (auto dest: findByRestaurant_Some)
    then have "\<exists>x \<in> set (restaurants d1). r_id (rr_data x) = r"
      using w1 by (auto simp: wf_db_def list_all_iff)
    then show ?thesis using nor fr by simp
  qed
  then have "dinnerGroup_upsert now r d1 = (Inl ForeignKeyConstraint, d1)"
    using nor fr by (simp add: dinnerGroup_upsert_def)
  then have "snd (joinDinnerGroup now u r d) = d1"
    using ne l by (simp add: joinDinnerGroup_def)
  then show ?thesis by (simp add: d1_def)
qed

lemma apply_op_settled_no_empty:
  assumes "wf_db d" "no_empty_groups d" "call_settled x d"
  shows "no_empty_groups (snd (apply_op x d))"
proof (cases "fst (apply_op x d)")
  case (Inr y)
  then show ?thesis using assms(1,2) by (intro apply_op_no_empty)
next
  case (Inl e)
  show ?thesis
  proof (cases x)
    case (Leave u)
    then show ?thesis using assms by (simp add: leave_no_empty)
  next
    case (Join now u r)
    have u: "u \<in> set (users d)" using assms(3) Inl Join by (simp add: call_settled_def)
    have f: "fst (joinDinnerGroup now u r d) = Inl e"
      using Inl Join by (auto split: prod.splits sum.splits)
    have s: "snd (apply_op x d) = snd (joinDinnerGroup now u r d)"
      using Join by (auto split: prod.splits sum.splits)
    show ?thesis
      using join_Inl_state[OF assms(1) u f] assms(2) leave_no_empty[OF assms(1,2), of u] s
      by auto
  qed
qed

lemma run_states_no_empty:
  "wf_db d \<Longrightarrow> no_empty_groups d \<Longrightarrow> all_settled ops d \<Longrightarrow>
   s \<in> set (run_states ops d) \<Longrightarrow> no_empty_groups s"
proof (induction ops arbitrary: d)
  case Nil
  then show ?case by simp
next
  case (Cons x xs)
  have c: "call_settled x d" "all_settled xs (snd (apply_op x d))"
    using Cons.prems(3) by auto
  have w: "wf_db (snd (apply_op x d))" using Cons.prems(1) by (rule apply_op_wf)
  have n: "no_empty_groups (snd (apply_op x d))"
    using Cons.prems(1,2) c(1) by (rule apply_op_settled_no_empty)
  show ?case using Cons.prems(2,4) Cons.IH[OF w n c(2)] by auto
qed

lemma completed_settled:
  "fst (apply_op x d) = Inr y \<Longrightarrow> call_settled x d"
  by (simp add: call_settled_def)

text \<open>
  Person \<open>zed\<close> has no \<open>User\<close> row. Her join to venue \<open>v1\<close> upserts the group of
  \<open>v1\<close> and then throws at \<open>attendee.create\<close>; the group stays, with no attendee, also
  after later calls that return normally. The store meets the schema's constraints
  throughout.
\<close>

theorem failed_join_leaves_empty_group:
  "wf_db db0 \<and> no_empty_groups db0 \<and>
   fst (joinDinnerGroup 1 ''zed'' ''v1'' db0) = Inl ForeignKeyConstraint \<and>
   dinnerGroups (snd (joinDinnerGroup 1 ''zed'' ''v1'' db0)) =
     [\<lparr>dg_id = 0, dg_restaurantId = ''v1'', dg_notes = None, dg_createdAt = 1\<rparr>] \<and>
   attendees (snd (joinDinnerGroup 1 ''zed'' ''v1'' db0)) = [] \<and>
   group_exists ''v1'' (last (run_states [Join 1 ''zed'' ''v1''] db0)) \<and>
   \<not> venue_attended ''v1'' (last (run_states [Join 1 ''zed'' ''v1''] db0)) \<and>
   fst (apply_op (Join 2 ''ann'' ''v2'') (snd (joinDinnerGroup 1 ''zed'' ''v1'' db0))) =
     Inr (Some \<lparr>dg_id = 1, dg_restaurantId = ''v2'', dg_notes = None, dg_createdAt = 2\<rparr>) \<and>
   group_exists ''v1''
     (last (run_states [Join 1 ''zed'' ''v1'', Join 2 ''ann'' ''v2'', Leave ''ann''] db0)) \<and>
   \<not> venue_attended ''v1''
     (last (run_states [Join 1 ''zed'' ''v1'', Join 2 ''ann'' ''v2'', Leave ''ann''] db0)) \<and>
   wf_db (last (run_states [Join 1 ''zed'' ''v1'', Join 2 ''ann'' ''v2'', Leave ''ann''] db0))"
proof -
  have w: "wf_db (last (run_states [Join 1 ''zed'' ''v1'', Join 2 ''ann'' ''v2'', Leave ''ann''] db0))"
    using run_states_wf[OF wf_db0 last_run_states] .
  show ?thesis
    using wf_db0 no_empty_db0 w
    by (simp add: run_defs group_exists_def venue_attended_def)
qed

text \<open>
  Claim C3, as the code has it. Start from a store that meets the schema's constraints and
  has no group without attendees, and run any finite sequence of join and leave calls,
  returning or throwing, in which every join that throws is made for a person who has a
  \<open>User\<close> row. In the store before the first call and after every call, a
  \<open>DinnerGroup\<close> row exists for a venue exactly when some \<open>Attendee\<close> row references a
  group of that venue; and in each of these stores, a leave by the only attendee of a group
  removes the group of that venue.
\<close>

theorem group_iff_attended:
  assumes "wf_db d" "no_empty_groups d" "all_settled ops d"
  shows "\<forall>s \<in> set (run_states ops d).
     (group_exists v s \<longleftrightarrow> venue_attended v s) \<and>
     (\<forall>u g. u \<noteq> [] \<and> fst (leaveDinnerGroup u s) = Inr (Some g) \<and> sole_attendee u (dg_id g) s
        \<longrightarrow> \<not> group_exists (dg_restaurantId g) (snd (leaveDinnerGroup u s)))"
proof
  fix s assume s: "s \<in> set (run_states ops d)"
  have w: "wf_db s" using assms(1) s by (rule run_states_wf)
  have n: "no_empty_groups s" using assms s by (rule run_states_no_empty)
  show "(group_exists v s \<longleftrightarrow> venue_attended v s) \<and>
     (\<forall>u g. u \<noteq> [] \<and> fst (leaveDinnerGroup u s) = Inr (Some g) \<and> sole_attendee u (dg_id g) s
        \<longrightarrow> \<not> group_exists (dg_restaurantId g) (snd (leaveDinnerGroup u s)))"
    using no_empty_iff[OF w n] last_leaver_deletes_group[OF w] by blast
qed

theorem group_iff_attended_witness:
  "wf_db db0 \<and> no_empty_groups db0 \<and>
   all_settled [Join 1 ''ann'' ''v1'', Join 2 ''bob'' ''nowhere'', Join 3 ''bob'' ''v1'',
                Leave ''ann'', Leave [], Leave ''bob''] db0 \<and>
   fst (apply_op (Join 2 ''bob'' ''nowhere'') (snd (apply_op (Join 1 ''ann'' ''v1'') db0))) =
     Inl ForeignKeyConstraint \<and>
   (group_exists ''v1''
      (last (run_states [Join 1 ''ann'' ''v1'', Join 2 ''bob'' ''nowhere'', Join 3 ''bob'' ''v1'',
                Leave ''ann'', Leave [], Leave ''bob''] db0))
    = venue_attended ''v1''
      (last (run_states [Join 1 ''ann'' ''v1'', Join 2 ''bob'' ''nowhere'', Join 3 ''bob'' ''v1'',
                Leave ''ann'', Leave [], Leave ''bob''] db0))) \<and>
   group_exists ''v1''
      (last (run_states [Join 1 ''ann'' ''v1'', Join 2 ''bob'' ''nowhere'', Join 3 ''bob'' ''v1'',
                Leave ''ann''] db0)) \<and>
   \<not> group_exists ''v1''
      (last (run_states [Join 1 ''ann'' ''v1'', Join 2 ''bob'' ''nowhere'', Join 3 ''bob'' ''v1'',
                Leave ''ann'', Leave [], Leave ''bob''] db0))"
proof -
  have c: "all_settled [Join 1 ''ann'' ''v1'', Join 2 ''bob'' ''nowhere'', Join 3 ''bob'' ''v1'',
                Leave ''ann'', Leave [], Leave ''bob''] db0"
    by (simp add: run_defs call_settled_def)
  have e: "fst (apply_op (Join 2 ''bob'' ''nowhere'') (snd (apply_op (Join 1 ''ann'' ''v1'') db0))) =
     Inl ForeignKeyConstraint"
    by (simp add: run_defs)
  have i: "group_exists ''v1''
      (last (run_states [Join 1 ''ann'' ''v1'', Join 2 ''bob'' ''nowhere'', Join 3 ''bob'' ''v1'',
                Leave ''ann'', Leave [], Leave ''bob''] db0))
    = venue_attended ''v1''
      (last (run_states [Join 1 ''ann'' ''v1'', Join 2 ''bob'' ''nowhere'', Join 3 ''bob'' ''v1'',
                Leave ''ann'', Leave [], Leave ''bob''] db0))"
    using group_iff_attended[OF wf_db0 no_empty_db0 c, of "''v1''"] last_run_states by blast
  have g1: "group_exists ''v1''
      (last (run_states [Join 1 ''ann'' ''v1'', Join 2 ''bob'' ''nowhere'', Join 3 ''bob'' ''v1'',
                Leave ''ann''] db0))"
    by (simp add: run_defs group_exists_def)
  have g2: "\<not> group_exists ''v1''
      (last (run_states [Join 1 ''ann'' ''v1'', Join 2 ''bob'' ''nowhere'', Join 3 ''bob'' ''v1'',
                Leave ''ann'', Leave [], Leave ''bob''] db0))"
    by (simp add: run_defs group_exists_def)
  show ?thesis using wf_db0 no_empty_db0 c e i g1 g2 by simp
qed

section \<open>C6: leave is idempotent\<close>

lemma leave_Inr_unattached:
  assumes "fst (leaveDinnerGroup u d) = Inr x"
  shows "attendee_findUnique u (snd (leaveDinnerGroup u d)) = None"
  using leave_attendees[OF assms] by (simp add: find_userId_None)

lemma leave_Inl_unchanged:
  assumes "fst (leaveDinnerGroup u d) = Inl e"
  shows "snd (leaveDinnerGroup u d) = d"
proof (cases "u = []")
  case True
  then show ?thesis by (simp add: leaveDinnerGroup_def)
next
  case False
  show ?thesis
  proof (cases "attendee_findUnique u d")
    case None
    then show ?thesis using False by (simp add: leave_unattached)
  next
    case (Some a)
    show ?thesis
    proof (cases "dinnerGroup_findById (at_dinnerGroupId a) d")
      case None
      then show ?thesis using Some False by (simp add: leaveDinnerGroup_def)
    next
      case (Some g)
      then show ?thesis using assms leave_attending[OF False \<open>attendee_findUnique u d = Some a\<close> Some]
        by simp
    qed
  qed
qed

text \<open>
  Claim C6. From any store, the store left by two leave calls in a row for a person is the
  store left by one. For a person with no \<open>Attendee\<close> row (and a non-empty id), leave
  changes nothing and returns the empty result, not an error; in particular the second of
  two leave calls does so in any store that meets the constraints.
\<close>

theorem leave_idempotent:
  "snd (leaveDinnerGroup p (snd (leaveDinnerGroup p d))) = snd (leaveDinnerGroup p d) \<and>
   (p \<noteq> [] \<and> attendee_findUnique p d = None \<longrightarrow> leaveDinnerGroup p d = (Inr None, d)) \<and>
   (p \<noteq> [] \<and> wf_db d \<longrightarrow>
      leaveDinnerGroup p (snd (leaveDinnerGroup p d)) = (Inr None, snd (leaveDinnerGroup p d)))"
proof (intro conjI impI)
  show "snd (leaveDinnerGroup p (snd (leaveDinnerGroup p d))) = snd (leaveDinnerGroup p d)"
  proof (cases "fst (leaveDinnerGroup p d)")
    case (Inl e)
    then have "snd (leaveDinnerGroup p d) = d" by (rule leave_Inl_unchanged)
    then show ?thesis by simp
  next
    case (Inr x)
    then have "attendee_findUnique p (snd (leaveDinnerGroup p d)) = None"
      by (rule leave_Inr_unattached)
    moreover have "p \<noteq> []" using Inr by (auto simp: leaveDinnerGroup_def split: if_splits)
    ultimately show ?thesis by (simp add: leave_unattached)
  qed
next
  assume "p \<noteq> [] \<and> attendee_findUnique p d = None"
  then show "leaveDinnerGroup p d = (Inr None, d)" by (simp add: leave_unattached)
next
  assume a: "p \<noteq> [] \<and> wf_db d"
  then obtain x where "fst (leaveDinnerGroup p d) = Inr x" using leave_ok by blast
  then have "attendee_findUnique p (snd (leaveDinnerGroup p d)) = None"
    by (rule leave_Inr_unattached)
  then show "leaveDinnerGroup p (snd (leaveDinnerGroup p d)) = (Inr None, snd (leaveDinnerGroup p d))"
    using a by (simp add: leave_unattached)
qed

theorem leave_idempotent_witness:
  "attendee_findUnique ''ann'' (snd (joinDinnerGroup 1 ''ann'' ''v1'' db0)) \<noteq> None \<and>
   wf_db (snd (joinDinnerGroup 1 ''ann'' ''v1'' db0)) \<and>
   snd (leaveDinnerGroup ''ann'' (snd (leaveDinnerGroup ''ann'' (snd (joinDinnerGroup 1 ''ann'' ''v1'' db0)))))
     = snd (leaveDinnerGroup ''ann'' (snd (joinDinnerGroup 1 ''ann'' ''v1'' db0))) \<and>
   attendee_findUnique ''bob'' db0 = None \<and>
   leaveDinnerGroup ''bob'' db0 = (Inr None, db0) \<and>
   leaveDinnerGroup ''ann'' (snd (leaveDinnerGroup ''ann'' (snd (joinDinnerGroup 1 ''ann'' ''v1'' db0))))
     = (Inr None, db0\<lparr>idSeq := 2\<rparr>)"
proof -
  have w: "wf_db (snd (joinDinnerGroup 1 ''ann'' ''v1'' db0))"
    using wf_db0 by (rule joinDinnerGroup_wf)
  have f: "attendee_findUnique ''ann'' (snd (joinDinnerGroup 1 ''ann'' ''v1'' db0)) \<noteq> None"
    by (simp add: run_defs)
  have b: "attendee_findUnique ''bob'' db0 = None" by (simp add: run_defs)
  have s: "snd (leaveDinnerGroup ''ann'' (snd (joinDinnerGroup 1 ''ann'' ''v1'' db0))) = db0\<lparr>idSeq := 2\<rparr>"
    by (simp add: run_defs)
  show ?thesis
    using leave_idempotent[of "''ann''" "snd (joinDinnerGroup 1 ''ann'' ''v1'' db0)"]
      leave_idempotent[of "''bob''" db0] w f b s
    by simp
qed

section \<open>C8: missing identifiers\<close>

text \<open>
  Claim C8. \<open>joinDinnerGroup\<close> throws the invariant error (InvalidArgument) exactly when
  the person id or the venue id is empty, and \<open>leaveDinnerGroup\<close> exactly when the person
  id is empty. The error is thrown before any store call: the store is unchanged, and
  nothing is retried.
\<close>

theorem invalid_argument_iff:
  "((\<exists>m. fst (joinDinnerGroup now u r d) = Inl (InvariantError m)) \<longleftrightarrow> (u = [] \<or> r = [])) \<and>
   ((\<exists>m. fst (leaveDinnerGroup u d) = Inl (InvariantError m)) \<longleftrightarrow> u = []) \<and>
   (\<forall>m. fst (joinDinnerGroup now u r d) = Inl (InvariantError m) \<longrightarrow> snd (joinDinnerGroup now u r d) = d) \<and>
   (\<forall>m. fst (leaveDinnerGroup u d) = Inl (InvariantError m) \<longrightarrow> snd (leaveDinnerGroup u d) = d)"
proof -
  have l: "(\<exists>m. fst (leaveDinnerGroup u d) = Inl (InvariantError m)) \<longleftrightarrow> u = []"
    by (auto simp: leaveDinnerGroup_def attendee_delete_def dinnerGroup_delete_def
        split: option.splits if_splits)
  have l': "\<And>e d1. u \<noteq> [] \<Longrightarrow> leaveDinnerGroup u d = (Inl e, d1) \<Longrightarrow> \<forall>m. e \<noteq> InvariantError m"
    using l by auto
  have up: "\<And>d1 e d2. dinnerGroup_upsert now r d1 = (Inl e, d2) \<Longrightarrow> \<forall>m. e \<noteq> InvariantError m"
    by (auto simp: dinnerGroup_upsert_def Let_def split: option.splits if_splits)
  have cr: "\<And>i d2 e d3. attendee_create now u i d2 = (Inl e, d3) \<Longrightarrow> \<forall>m. e \<noteq> InvariantError m"
    by (auto simp: attendee_create_def Let_def split: if_splits)
  have j: "(\<exists>m. fst (joinDinnerGroup now u r d) = Inl (InvariantError m)) \<longleftrightarrow> (u = [] \<or> r = [])"
    using l' up cr
    by (auto simp: joinDinnerGroup_def split: prod.splits sum.splits)
  have js: "\<forall>m. fst (joinDinnerGroup now u r d) = Inl (InvariantError m) \<longrightarrow> snd (joinDinnerGroup now u r d) = d"
    using j by (auto simp: joinDinnerGroup_def)
  have ls: "\<forall>m. fst (leaveDinnerGroup u d) = Inl (InvariantError m) \<longrightarrow> snd (leaveDinnerGroup u d) = d"
    using l by (auto simp: leaveDinnerGroup_def)
  show ?thesis using l j js ls by blast
qed

theorem invalid_argument_iff_witness:
  "joinDinnerGroup 1 [] ''v1'' db0 = (Inl (InvariantError ''userId is required''), db0) \<and>
   joinDinnerGroup 1 ''ann'' [] db0 = (Inl (InvariantError ''restaurantId is required''), db0) \<and>
   leaveDinnerGroup [] db0 = (Inl (InvariantError ''userId is required''), db0) \<and>
   fst (joinDinnerGroup 1 ''ann'' ''nowhere'' db0) = Inl ForeignKeyConstraint \<and>
   (\<exists>g. fst (joinDinnerGroup 1 ''ann'' ''v1'' db0) = Inr g)"
proof -
  have a: "joinDinnerGroup 1 [] ''v1'' db0 = (Inl (InvariantError ''userId is required''), db0)"
    by (simp add: joinDinnerGroup_def)
  have b: "joinDinnerGroup 1 ''ann'' [] db0 = (Inl (InvariantError ''restaurantId is required''), db0)"
    by (simp add: joinDinnerGroup_def)
  have c: "leaveDinnerGroup [] db0 = (Inl (InvariantError ''userId is required''), db0)"
    by (simp add: leaveDinnerGroup_def)
  have e: "fst (joinDinnerGroup 1 ''ann'' ''nowhere'' db0) = Inl ForeignKeyConstraint"
    by (simp add: run_defs)
  have f: "\<exists>g. fst (joinDinnerGroup 1 ''ann'' ''v1'' db0) = Inr g"
    by (simp add: run_defs)
  show ?thesis
    using invalid_argument_iff[of 1 "[]" "''v1''" db0] a b c e f by simp
qed

section \<open>The store after a join that returns\<close>

lemma join_post:
  assumes w: "wf_db d" and j: "joinDinnerGroup now u r d = (Inr g, d')"
  shows "dg_restaurantId g = r"
    and "g \<in> set (dinnerGroups d')"
    and "\<exists>i. attendees d' = filter (\<lambda>a. at_userId a \<noteq> u) (attendees d) @
            [\<lparr>at_id = i, at_userId = u, at_dinnerGroupId = dg_id g, at_createdAt = now\<rparr>]"
    and "set (dinnerGroups d') \<subseteq> insert g (set (dinnerGroups (snd (leaveDinnerGroup u d))))"
    and "set (dinnerGroups (snd (leaveDinnerGroup u d))) \<subseteq> set (dinnerGroups d')"
proof -
  have f: "fst (joinDinnerGroup now u r d) = Inr g" using j by simp
  have args: "u \<noteq> []" "r \<noteq> []" "u \<in> set (users d)" "\<exists>x \<in> set (restaurants d). r_id (rr_data x) = r"
    using join_Inr_args[OF w f] by auto
  obtain x where x: "fst (leaveDinnerGroup u d) = Inr x" using leave_ok[OF w args(1)] by blast
  define d1 where "d1 = snd (leaveDinnerGroup u d)"
  have att: "attendees d1 = filter (\<lambda>a. at_userId a \<noteq> u) (attendees d)"
    unfolding d1_def using x by (rule leave_attendees)
  have c: "joinDinnerGroup now u r d =
     (case dinnerGroup_findByRestaurant r d1 of
       Some g \<Rightarrow>
         (Inr g, d1\<lparr>attendees := attendees d1 @
                      [\<lparr>at_id = idSeq d1, at_userId = u, at_dinnerGroupId = dg_id g, at_createdAt = now\<rparr>],
                    idSeq := Suc (idSeq d1)\<rparr>)
     | None \<Rightarrow>
         (Inr \<lparr>dg_id = idSeq d1, dg_restaurantId = r, dg_notes = None, dg_createdAt = now\<rparr>,
          d1\<lparr>dinnerGroups := dinnerGroups d1 @
                 [\<lparr>dg_id = idSeq d1, dg_restaurantId = r, dg_notes = None, dg_createdAt = now\<rparr>],
              attendees := attendees d1 @
                 [\<lparr>at_id = Suc (idSeq d1), at_userId = u, at_dinnerGroupId = idSeq d1, at_createdAt = now\<rparr>],
              idSeq := Suc (Suc (idSeq d1))\<rparr>))"
    unfolding d1_def by (simp only: join_closed[OF w args] Let_def)
  show "dg_restaurantId g = r"
    using c j by (cases "dinnerGroup_findByRestaurant r d1") (auto dest: findByRestaurant_Some)
  show "g \<in> set (dinnerGroups d')"
    using c j by (cases "dinnerGroup_findByRestaurant r d1") (auto dest: findByRestaurant_Some)
  show "\<exists>i. attendees d' = filter (\<lambda>a. at_userId a \<noteq> u) (attendees d) @
            [\<lparr>at_id = i, at_userId = u, at_dinnerGroupId = dg_id g, at_createdAt = now\<rparr>]"
    using c j att by (cases "dinnerGroup_findByRestaurant r d1") auto
  show "set (dinnerGroups d') \<subseteq> insert g (set (dinnerGroups (snd (leaveDinnerGroup u d))))"
    using c j unfolding d1_def[symmetric] by (cases "dinnerGroup_findByRestaurant r d1") auto
  show "set (dinnerGroups (snd (leaveDinnerGroup u d))) \<subseteq> set (dinnerGroups d')"
    using c j unfolding d1_def[symmetric] by (cases "dinnerGroup_findByRestaurant r d1") auto
qed

lemma find_append_last:
  "\<forall>x \<in> set xs. \<not> P x \<Longrightarrow> P y \<Longrightarrow> find P (xs @ [y]) = Some y"
  by (induction xs) auto

lemma wf_findById:
  assumes "wf_db d" "g \<in> set (dinnerGroups d)"
  shows "dinnerGroup_findById (dg_id g) d = Some g"
proof -
  obtain h where h: "dinnerGroup_findById (dg_id g) d = Some h"
    using assms(2) by (cases "dinnerGroup_findById (dg_id g) d")
      (auto simp: dinnerGroup_findById_def find_None_iff)
  then have "h \<in> set (dinnerGroups d)" "dg_id h = dg_id g" by (auto dest: findById_Some)
  moreover have "inj_on dg_id (set (dinnerGroups d))" using assms(1) by (simp add: wf_db_def distinct_map)
  ultimately have "h = g" using assms(2) by (auto simp: inj_on_def)
  then show ?thesis using h by simp
qed

lemma join_attending:
  assumes w: "wf_db d" and j: "joinDinnerGroup now u r d = (Inr g, d')"
  shows "\<exists>a. filter (\<lambda>a. at_userId a = u) (attendees d') = [a] \<and> at_dinnerGroupId a = dg_id g \<and>
             attendee_findUnique u d' = Some a"
    and "userAttendingRestaurantId (Some u) d' = Inr (Some r)"
proof -
  obtain i where att: "attendees d' = filter (\<lambda>a. at_userId a \<noteq> u) (attendees d) @
            [\<lparr>at_id = i, at_userId = u, at_dinnerGroupId = dg_id g, at_createdAt = now\<rparr>]"
    using join_post(3)[OF w j] by blast
  define a where "a = \<lparr>at_id = i, at_userId = u, at_dinnerGroupId = dg_id g, at_createdAt = now\<rparr>"
  have fl: "filter (\<lambda>a. at_userId a = u) (attendees d') = [a]"
    unfolding att a_def by (simp add: filter_empty_conv)
  have fu: "attendee_findUnique u d' = Some a"
    unfolding attendee_findUnique_def att a_def by (rule find_append_last) auto
  have "at_dinnerGroupId a = dg_id g" by (simp add: a_def)
  then show "\<exists>a. filter (\<lambda>a. at_userId a = u) (attendees d') = [a] \<and> at_dinnerGroupId a = dg_id g \<and>
             attendee_findUnique u d' = Some a"
    using fl fu by blast
  have w': "wf_db d'" using joinDinnerGroup_wf[OF w, of now u r] j by simp
  have "dinnerGroup_findById (dg_id g) d' = Some g"
    using w' join_post(2)[OF w j] by (rule wf_findById)
  moreover have "u \<noteq> []" using join_Inr_args[OF w, of now u r g] j by simp
  ultimately show "userAttendingRestaurantId (Some u) d' = Inr (Some r)"
    using fu join_post(1)[OF w j] by (simp add: userAttendingRestaurantId_def a_def)
qed

section \<open>C7: joining the same venue twice\<close>

lemma join_again_ok:
  assumes w: "wf_db d" and j: "joinDinnerGroup n1 u r d = (Inr g1, d1)"
  shows "\<exists>g2. fst (joinDinnerGroup n2 u r d1) = Inr g2"
proof -
  have args: "u \<noteq> []" "r \<noteq> []" "u \<in> set (users d)" "\<exists>x \<in> set (restaurants d). r_id (rr_data x) = r"
    using join_Inr_args[OF w, of n1 u r g1] j by auto
  have w1: "wf_db d1" using joinDinnerGroup_wf[OF w, of n1 u r] j by simp
  have g1: "g1 \<in> set (dinnerGroups d1)" "dg_restaurantId g1 = r"
    using join_post(1,2)[OF w j] by auto
  have r1: "\<exists>x \<in> set (restaurants d1). r_id (rr_data x) = r"
    using w1 g1 by (auto simp: wf_db_def list_all_iff)
  obtain a where "a \<in> set (attendees d1)" "at_userId a = u"
    using join_attending(1)[OF w j] by (auto dest: find_userId_Some)
  then have u1: "u \<in> set (users d1)" using w1 by (auto simp: wf_db_def list_all_iff)
  show ?thesis
    unfolding join_closed[OF w1 args(1,2) u1 r1] Let_def
    by (simp split: option.splits)
qed


lemma leave_keeps_attended_groups:
  assumes "g \<in> set (dinnerGroups d)"
    "\<exists>a \<in> set (attendees d). at_userId a \<noteq> u \<and> at_dinnerGroupId a = dg_id g"
  shows "g \<in> set (dinnerGroups (snd (leaveDinnerGroup u d)))"
proof (cases "fst (leaveDinnerGroup u d)")
  case (Inl e)
  then show ?thesis using assms(1) by (simp add: leave_Inl_unchanged)
next
  case (Inr x)
  then have ne: "u \<noteq> []" by (auto simp: leaveDinnerGroup_def split: if_splits)
  show ?thesis
  proof (cases "attendee_findUnique u d")
    case None
    then show ?thesis using assms(1) ne by (simp add: leave_unattached)
  next
    case (Some a)
    then obtain h where h: "dinnerGroup_findById (at_dinnerGroupId a) d = Some h"
      using Inr ne by (cases "dinnerGroup_findById (at_dinnerGroupId a) d")
        (auto simp: leaveDinnerGroup_def)
    show ?thesis
      using assms unfolding leave_attending[OF ne Some h]
      by (auto simp: sole_attendee_def list_all_iff)
  qed
qed

lemma join_keeps_venue_of_others:
  assumes w: "wf_db d" and j: "joinDinnerGroup now u r d = (Inr g, d')"
    and a: "a \<in> set (attendees d)" "at_userId a \<noteq> u"
  shows "dinnerGroup_findById (at_dinnerGroupId a) d' = dinnerGroup_findById (at_dinnerGroupId a) d"
proof -
  obtain h where h: "dinnerGroup_findById (at_dinnerGroupId a) d = Some h"
    using wf_group_of_attendee[OF w a(1)] by blast
  then have hin: "h \<in> set (dinnerGroups d)" and hid: "dg_id h = at_dinnerGroupId a"
    by (auto dest: findById_Some)
  have "h \<in> set (dinnerGroups (snd (leaveDinnerGroup u d)))"
    using hin a hid by (intro leave_keeps_attended_groups) auto
  then have "h \<in> set (dinnerGroups d')" using join_post(5)[OF w j] by blast
  moreover have "wf_db d'" using joinDinnerGroup_wf[OF w, of now u r] j by simp
  ultimately have "dinnerGroup_findById (dg_id h) d' = Some h" by (intro wf_findById)
  then show ?thesis using h hid by simp
qed

text \<open>
  Claim C7. In a store that meets the constraints, after a join of person \<open>p\<close> to venue
  \<open>v\<close> that returned, a second join of \<open>p\<close> to \<open>v\<close> returns too (no error); afterwards
  \<open>p\<close> has exactly one \<open>Attendee\<close> row, it references the returned group, that group is
  bound to \<open>v\<close>, the venue read back for \<open>p\<close> is \<open>v\<close>, and who attends which venue is
  as it was before the second call.
\<close>

theorem join_same_venue_twice:
  assumes "wf_db d" "joinDinnerGroup n1 p v d = (Inr g1, d1)"
  shows "\<exists>g2 d2. joinDinnerGroup n2 p v d1 = (Inr g2, d2) \<and>
           dg_restaurantId g2 = v \<and> g2 \<in> set (dinnerGroups d2) \<and>
           (\<exists>a. filter (\<lambda>a. at_userId a = p) (attendees d2) = [a] \<and> at_dinnerGroupId a = dg_id g2) \<and>
           userAttendingRestaurantId (Some p) d2 = Inr (Some v) \<and>
           memberships d2 = memberships d1"
proof -
  have w1: "wf_db d1" using joinDinnerGroup_wf[OF assms(1), of n1 p v] assms(2) by simp
  obtain g2 where "fst (joinDinnerGroup n2 p v d1) = Inr g2"
    using join_again_ok[OF assms] by blast
  then obtain d2 where j2: "joinDinnerGroup n2 p v d1 = (Inr g2, d2)"
    by (cases "joinDinnerGroup n2 p v d1") auto
  have w2: "wf_db d2" using joinDinnerGroup_wf[OF w1, of n2 p v] j2 by simp
  define F where "F = filter (\<lambda>a. at_userId a \<noteq> p) (attendees d)"
  obtain i1 where a1: "attendees d1 = F @
      [\<lparr>at_id = i1, at_userId = p, at_dinnerGroupId = dg_id g1, at_createdAt = n1\<rparr>]"
    using join_post(3)[OF assms] F_def by blast
  obtain i2 where a2': "attendees d2 = filter (\<lambda>a. at_userId a \<noteq> p) (attendees d1) @
      [\<lparr>at_id = i2, at_userId = p, at_dinnerGroupId = dg_id g2, at_createdAt = n2\<rparr>]"
    using join_post(3)[OF w1 j2] by blast
  have a2: "attendees d2 = F @
      [\<lparr>at_id = i2, at_userId = p, at_dinnerGroupId = dg_id g2, at_createdAt = n2\<rparr>]"
    using a2' a1 by (simp add: F_def)
  have f1: "dinnerGroup_findById (dg_id g1) d1 = Some g1"
    using w1 join_post(2)[OF assms] by (rule wf_findById)
  have f2: "dinnerGroup_findById (dg_id g2) d2 = Some g2"
    using w2 join_post(2)[OF w1 j2] by (rule wf_findById)
  have r: "dg_restaurantId g1 = v" "dg_restaurantId g2 = v"
    using join_post(1)[OF assms] join_post(1)[OF w1 j2] by auto
  have others: "\<And>a. a \<in> set F \<Longrightarrow>
      dinnerGroup_findById (at_dinnerGroupId a) d2 = dinnerGroup_findById (at_dinnerGroupId a) d1"
    using join_keeps_venue_of_others[OF w1 j2] a1 by (auto simp: F_def)
  have m: "memberships d2 = memberships d1"
    unfolding memberships_def a1 a2 using f1 f2 r others by auto
  show ?thesis
    using j2 r(2) join_post(2)[OF w1 j2] join_attending[OF w1 j2] m by blast
qed

theorem join_same_venue_twice_witness:
  "wf_db db0 \<and>
   joinDinnerGroup 1 ''ann'' ''v1'' db0 =
     (Inr \<lparr>dg_id = 0, dg_restaurantId = ''v1'', dg_notes = None, dg_createdAt = 1\<rparr>,
      db0\<lparr>dinnerGroups := [\<lparr>dg_id = 0, dg_restaurantId = ''v1'', dg_notes = None, dg_createdAt = 1\<rparr>],
          attendees := [\<lparr>at_id = 1, at_userId = ''ann'', at_dinnerGroupId = 0, at_createdAt = 1\<rparr>],
          idSeq := 2\<rparr>) \<and>
   (\<exists>g2 d2. joinDinnerGroup 2 ''ann'' ''v1''
        (db0\<lparr>dinnerGroups := [\<lparr>dg_id = 0, dg_restaurantId = ''v1'', dg_notes = None, dg_createdAt = 1\<rparr>],
          attendees := [\<lparr>at_id = 1, at_userId = ''ann'', at_dinnerGroupId = 0, at_createdAt = 1\<rparr>],
          idSeq := 2\<rparr>) = (Inr g2, d2) \<and>
      userAttendingRestaurantId (Some ''ann'') d2 = Inr (Some ''v1'') \<and>
      length (filter (\<lambda>a. at_userId a = ''ann'') (attendees d2)) = 1)"
proof -
  have j: "joinDinnerGroup 1 ''ann'' ''v1'' db0 =
     (Inr \<lparr>dg_id = 0, dg_restaurantId = ''v1'', dg_notes = None, dg_createdAt = 1\<rparr>,
      db0\<lparr>dinnerGroups := [\<lparr>dg_id = 0, dg_restaurantId = ''v1'', dg_notes = None, dg_createdAt = 1\<rparr>],
          attendees := [\<lparr>at_id = 1, at_userId = ''ann'', at_dinnerGroupId = 0, at_createdAt = 1\<rparr>],
          idSeq := 2\<rparr>)"
    by (simp add: run_defs)
  show ?thesis
    using join_same_venue_twice[OF wf_db0 j, of 2] wf_db0 j by fastforce
qed

section \<open>C4: joining one venue, then another\<close>

text \<open>
  Claim C4. In a store that meets the constraints, let a join of person \<open>p\<close> to venue
  \<open>v1\<close> and then a join of \<open>p\<close> to a different venue \<open>v2\<close> both return. Afterwards
  \<open>p\<close> has exactly one \<open>Attendee\<close> row, it references the group returned by the second
  call, which is bound to \<open>v2\<close>, and the venue read back for \<open>p\<close> is \<open>v2\<close>; if
  \<open>p\<close> was the only attendee of the group of \<open>v1\<close>, no group of \<open>v1\<close> is left. (The
  starting state need not have \<open>p\<close> unattached.)
\<close>

theorem join_then_join_elsewhere:
  assumes "wf_db d" "v1 \<noteq> v2"
    "joinDinnerGroup n1 p v1 d = (Inr g1, d1)" "joinDinnerGroup n2 p v2 d1 = (Inr g2, d2)"
  shows "dg_restaurantId g2 = v2 \<and> g2 \<in> set (dinnerGroups d2) \<and>
         (\<exists>a. filter (\<lambda>a. at_userId a = p) (attendees d2) = [a] \<and> at_dinnerGroupId a = dg_id g2) \<and>
         userAttendingRestaurantId (Some p) d2 = Inr (Some v2) \<and>
         (sole_attendee p (dg_id g1) d1 \<longrightarrow> \<not> group_exists v1 d2)"
proof -
  have w1: "wf_db d1" using joinDinnerGroup_wf[OF assms(1), of n1 p v1] assms(3) by simp
  have ne: "p \<noteq> []" using join_Inr_args[OF assms(1), of n1 p v1 g1] assms(3) by simp
  have r: "dg_restaurantId g1 = v1" "dg_restaurantId g2 = v2"
    using join_post(1)[OF assms(1,3)] join_post(1)[OF w1 assms(4)] by auto
  have del: "\<not> group_exists v1 d2" if sole: "sole_attendee p (dg_id g1) d1"
  proof -
    obtain a where a: "attendee_findUnique p d1 = Some a" "at_dinnerGroupId a = dg_id g1"
      using join_attending(1)[OF assms(1,3)] by blast
    have f: "dinnerGroup_findById (at_dinnerGroupId a) d1 = Some g1"
      using wf_findById[OF w1 join_post(2)[OF assms(1,3)]] a(2) by simp
    have "fst (leaveDinnerGroup p d1) = Inr (Some g1)"
      using leave_attending[OF ne a(1) f] by simp
    then have "\<not> group_exists (dg_restaurantId g1) (snd (leaveDinnerGroup p d1))"
      using last_leaver_deletes_group[OF w1 ne _ sole] by blast
    then show ?thesis
      using join_post(4)[OF w1 assms(4)] r assms(2) by (auto simp: group_exists_def)
  qed
  show ?thesis
    using r(2) join_post(2)[OF w1 assms(4)] join_attending[OF w1 assms(4)] del by blast
qed

theorem join_then_join_elsewhere_witness:
  "wf_db db0 \<and> ''v1'' \<noteq> ''v2'' \<and>
   joinDinnerGroup 1 ''ann'' ''v1'' db0 =
     (Inr \<lparr>dg_id = 0, dg_restaurantId = ''v1'', dg_notes = None, dg_createdAt = 1\<rparr>,
      db0\<lparr>dinnerGroups := [\<lparr>dg_id = 0, dg_restaurantId = ''v1'', dg_notes = None, dg_createdAt = 1\<rparr>],
          attendees := [\<lparr>at_id = 1, at_userId = ''ann'', at_dinnerGroupId = 0, at_createdAt = 1\<rparr>],
          idSeq := 2\<rparr>) \<and>
   joinDinnerGroup 2 ''ann'' ''v2''
      (db0\<lparr>dinnerGroups := [\<lparr>dg_id = 0, dg_restaurantId = ''v1'', dg_notes = None, dg_createdAt = 1\<rparr>],
          attendees := [\<lparr>at_id = 1, at_userId = ''ann'', at_dinnerGroupId = 0, at_createdAt = 1\<rparr>],
          idSeq := 2\<rparr>) =
     (Inr \<lparr>dg_id = 2, dg_restaurantId = ''v2'', dg_notes = None, dg_createdAt = 2\<rparr>,
      db0\<lparr>dinnerGroups := [\<lparr>dg_id = 2, dg_restaurantId = ''v2'', dg_notes = None, dg_createdAt = 2\<rparr>],
          attendees := [\<lparr>at_id = 3, at_userId = ''ann'', at_dinnerGroupId = 2, at_createdAt = 2\<rparr>],
          idSeq := 4\<rparr>) \<and>
   sole_attendee ''ann'' 0
      (db0\<lparr>dinnerGroups := [\<lparr>dg_id = 0, dg_restaurantId = ''v1'', dg_notes = None, dg_createdAt = 1\<rparr>],
          attendees := [\<lparr>at_id = 1, at_userId = ''ann'', at_dinnerGroupId = 0, at_createdAt = 1\<rparr>],
          idSeq := 2\<rparr>) \<and>
   userAttendingRestaurantId (Some ''ann'')
      (db0\<lparr>dinnerGroups := [\<lparr>dg_id = 2, dg_restaurantId = ''v2'', dg_notes = None, dg_createdAt = 2\<rparr>],
          attendees := [\<lparr>at_id = 3, at_userId = ''ann'', at_dinnerGroupId = 2, at_createdAt = 2\<rparr>],
          idSeq := 4\<rparr>) = Inr (Some ''v2'') \<and>
   \<not> group_exists ''v1''
      (db0\<lparr>dinnerGroups := [\<lparr>dg_id = 2, dg_restaurantId = ''v2'', dg_notes = None, dg_createdAt = 2\<rparr>],
          attendees := [\<lparr>at_id = 3, at_userId = ''ann'', at_dinnerGroupId = 2, at_createdAt = 2\<rparr>],
          idSeq := 4\<rparr>)"
proof -
  have ne: "''v1'' \<noteq> ''v2''" by simp
  have j1: "joinDinnerGroup 1 ''ann'' ''v1'' db0 =
     (Inr \<lparr>dg_id = 0, dg_restaurantId = ''v1'', dg_notes = None, dg_createdAt = 1\<rparr>,
      db0\<lparr>dinnerGroups := [\<lparr>dg_id = 0, dg_restaurantId = ''v1'', dg_notes = None, dg_createdAt = 1\<rparr>],
          attendees := [\<lparr>at_id = 1, at_userId = ''ann'', at_dinnerGroupId = 0, at_createdAt = 1\<rparr>],
          idSeq := 2\<rparr>)"
    by (simp add: run_defs)
  have j2: "joinDinnerGroup 2 ''ann'' ''v2''
      (db0\<lparr>dinnerGroups := [\<lparr>dg_id = 0, dg_restaurantId = ''v1'', dg_notes = None, dg_createdAt = 1\<rparr>],
          attendees := [\<lparr>at_id = 1, at_userId = ''ann'', at_dinnerGroupId = 0, at_createdAt = 1\<rparr>],
          idSeq := 2\<rparr>) =
     (Inr \<lparr>dg_id = 2, dg_restaurantId = ''v2'', dg_notes = None, dg_createdAt = 2\<rparr>,
      db0\<lparr>dinnerGroups := [\<lparr>dg_id = 2, dg_restaurantId = ''v2'', dg_notes = None, dg_createdAt = 2\<rparr>],
          attendees := [\<lparr>at_id = 3, at_userId = ''ann'', at_dinnerGroupId = 2, at_createdAt = 2\<rparr>],
          idSeq := 4\<rparr>)"
    by (simp add: run_defs)
  have s: "sole_attendee ''ann'' 0
      (db0\<lparr>dinnerGroups := [\<lparr>dg_id = 0, dg_restaurantId = ''v1'', dg_notes = None, dg_createdAt = 1\<rparr>],
          attendees := [\<lparr>at_id = 1, at_userId = ''ann'', at_dinnerGroupId = 0, at_createdAt = 1\<rparr>],
          idSeq := 2\<rparr>)"
    by (simp add: sole_attendee_def)
  show ?thesis
    using join_then_join_elsewhere[OF wf_db0 ne j1 j2] wf_db0 j1 j2 s by simp
qed

section \<open>C10: the sole attendee joins the same venue again\<close>

text \<open>
  Claim C10. In a store that meets the constraints, let person \<open>p\<close> be the only attendee
  of group \<open>g\<close>. A join of \<open>p\<close> to the venue of \<open>g\<close> returns a group row created by this
  call: its id is the next generated one (not the id of \<open>g\<close>), it has no note and its
  creation time is the time of the call; the row \<open>g\<close> is deleted and no row keeps its id.
\<close>

theorem rejoin_recreates_group:
  assumes "wf_db d" "p \<noteq> []" "attendee_findUnique p d = Some a"
    "dinnerGroup_findById (at_dinnerGroupId a) d = Some g"
    "sole_attendee p (dg_id g) d" "dg_restaurantId g \<noteq> []"
  shows "\<exists>d'. joinDinnerGroup now p (dg_restaurantId g) d =
           (Inr \<lparr>dg_id = idSeq d, dg_restaurantId = dg_restaurantId g, dg_notes = None,
                 dg_createdAt = now\<rparr>, d') \<and>
         idSeq d \<noteq> dg_id g \<and>
         dinnerGroups d' = filter (\<lambda>x. dg_id x \<noteq> dg_id g) (dinnerGroups d) @
           [\<lparr>dg_id = idSeq d, dg_restaurantId = dg_restaurantId g, dg_notes = None,
             dg_createdAt = now\<rparr>] \<and>
         g \<notin> set (dinnerGroups d') \<and> \<not> (\<exists>h \<in> set (dinnerGroups d'). dg_id h = dg_id g)"
proof -
  have ain: "a \<in> set (attendees d)" "at_userId a = p" using assms(3) by (auto dest: find_userId_Some)
  have gin: "g \<in> set (dinnerGroups d)" using assms(4) by (auto dest: findById_Some)
  have u: "p \<in> set (users d)" using assms(1) ain by (auto simp: wf_db_def list_all_iff)
  have r: "\<exists>x \<in> set (restaurants d). r_id (rr_data x) = dg_restaurantId g"
    using assms(1) gin by (auto simp: wf_db_def list_all_iff)
  have lt: "dg_id g < idSeq d" using assms(1) gin by (auto simp: wf_db_def list_all_iff)
  define d1 where "d1 = snd (leaveDinnerGroup p d)"
  have d1: "d1 = d\<lparr>dinnerGroups := filter (\<lambda>x. dg_id x \<noteq> dg_id g) (dinnerGroups d),
                   attendees := filter (\<lambda>a. at_userId a \<noteq> p) (attendees d)\<rparr>"
    unfolding d1_def using leave_attending[OF assms(2,3,4)] assms(5) by simp
  have inj: "inj_on dg_restaurantId (set (dinnerGroups d))"
    using assms(1) by (simp add: wf_db_def distinct_map)
  have "\<And>h. h \<in> set (dinnerGroups d) \<Longrightarrow> dg_restaurantId h = dg_restaurantId g \<Longrightarrow> h = g"
    using inj gin by (auto simp: inj_on_def)
  then have none: "dinnerGroup_findByRestaurant (dg_restaurantId g) d1 = None"
    unfolding findByRestaurant_None d1 by auto
  have "joinDinnerGroup now p (dg_restaurantId g) d =
      (Inr \<lparr>dg_id = idSeq d1, dg_restaurantId = dg_restaurantId g, dg_notes = None, dg_createdAt = now\<rparr>,
          d1\<lparr>dinnerGroups := dinnerGroups d1 @
                 [\<lparr>dg_id = idSeq d1, dg_restaurantId = dg_restaurantId g, dg_notes = None, dg_createdAt = now\<rparr>],
              attendees := attendees d1 @
                 [\<lparr>at_id = Suc (idSeq d1), at_userId = p, at_dinnerGroupId = idSeq d1, at_createdAt = now\<rparr>],
              idSeq := Suc (Suc (idSeq d1))\<rparr>)"
    unfolding join_closed[OF assms(1,2,6) u r] Let_def d1_def[symmetric] using none by simp
  moreover have "g \<noteq> \<lparr>dg_id = idSeq d, dg_restaurantId = dg_restaurantId g, dg_notes = None,
             dg_createdAt = now\<rparr>"
  proof
    assume "g = \<lparr>dg_id = idSeq d, dg_restaurantId = dg_restaurantId g, dg_notes = None,
             dg_createdAt = now\<rparr>"
    then have "dg_id g = idSeq d" by (metis dinnerGroup.select_convs(1))
    then show False using lt by simp
  qed
  ultimately show ?thesis using lt unfolding d1 by auto
qed

theorem rejoin_recreates_group_witness:
  "wf_db (db0\<lparr>dinnerGroups := [\<lparr>dg_id = 0, dg_restaurantId = ''v1'', dg_notes = Some ''window table'', dg_createdAt = 1\<rparr>],
          attendees := [\<lparr>at_id = 1, at_userId = ''ann'', at_dinnerGroupId = 0, at_createdAt = 1\<rparr>],
          idSeq := 2\<rparr>) \<and>
   joinDinnerGroup 7 ''ann'' ''v1''
     (db0\<lparr>dinnerGroups := [\<lparr>dg_id = 0, dg_restaurantId = ''v1'', dg_notes = Some ''window table'', dg_createdAt = 1\<rparr>],
          attendees := [\<lparr>at_id = 1, at_userId = ''ann'', at_dinnerGroupId = 0, at_createdAt = 1\<rparr>],
          idSeq := 2\<rparr>) =
     (Inr \<lparr>dg_id = 2, dg_restaurantId = ''v1'', dg_notes = None, dg_createdAt = 7\<rparr>,
      db0\<lparr>dinnerGroups := [\<lparr>dg_id = 2, dg_restaurantId = ''v1'', dg_notes = None, dg_createdAt = 7\<rparr>],
          attendees := [\<lparr>at_id = 3, at_userId = ''ann'', at_dinnerGroupId = 2, at_createdAt = 7\<rparr>],
          idSeq := 4\<rparr>)"
proof -
  define d where "d = db0\<lparr>dinnerGroups := [\<lparr>dg_id = 0, dg_restaurantId = ''v1'', dg_notes = Some ''window table'', dg_createdAt = 1\<rparr>],
          attendees := [\<lparr>at_id = 1, at_userId = ''ann'', at_dinnerGroupId = 0, at_createdAt = 1\<rparr>],
          idSeq := 2\<rparr>"
  have w: "wf_db d" by (simp add: d_def wf_db_def db0_def venue_def)
  have ne: "''ann'' \<noteq> []" by simp
  have a: "attendee_findUnique ''ann'' d =
      Some \<lparr>at_id = 1, at_userId = ''ann'', at_dinnerGroupId = 0, at_createdAt = 1\<rparr>"
    by (simp add: d_def run_defs)
  have g: "dinnerGroup_findById (at_dinnerGroupId \<lparr>at_id = 1, at_userId = ''ann'', at_dinnerGroupId = 0, at_createdAt = 1\<rparr>) d =
      Some \<lparr>dg_id = 0, dg_restaurantId = ''v1'', dg_notes = Some ''window table'', dg_createdAt = 1\<rparr>"
    by (simp add: d_def run_defs)
  have s: "sole_attendee ''ann'' (dg_id \<lparr>dg_id = 0, dg_restaurantId = ''v1'', dg_notes = Some ''window table'', dg_createdAt = 1\<rparr>) d"
    by (simp add: d_def sole_attendee_def db0_def)
  have v: "dg_restaurantId \<lparr>dg_id = 0, dg_restaurantId = ''v1'', dg_notes = Some ''window table'', dg_createdAt = 1\<rparr> \<noteq> []"
    by simp
  have j: "joinDinnerGroup 7 ''ann'' ''v1'' d =
     (Inr \<lparr>dg_id = 2, dg_restaurantId = ''v1'', dg_notes = None, dg_createdAt = 7\<rparr>,
      db0\<lparr>dinnerGroups := [\<lparr>dg_id = 2, dg_restaurantId = ''v1'', dg_notes = None, dg_createdAt = 7\<rparr>],
          attendees := [\<lparr>at_id = 3, at_userId = ''ann'', at_dinnerGroupId = 2, at_createdAt = 7\<rparr>],
          idSeq := 4\<rparr>)"
    by (simp add: d_def run_defs)
  show ?thesis using rejoin_recreates_group[OF w ne a g s v, of 7] w j unfolding d_def by simp
qed

section \<open>C2: switching venues is not atomic\<close>

lemma leave_trace_last:
  "last (d # leaveDinnerGroup_trace u d) = snd (leaveDinnerGroup u d)"
  by (auto simp: leaveDinnerGroup_trace_def leaveDinnerGroup_def split: option.splits sum.splits)

lemma join_trace_last:
  "last (d # joinDinnerGroup_trace now u r d) = snd (joinDinnerGroup now u r d)"
proof -
  have l: "last (d # leaveDinnerGroup_trace u d) = snd (leaveDinnerGroup u d)"
    by (rule leave_trace_last)
  obtain x d1 where x: "leaveDinnerGroup u d = (x, d1)" by (cases "leaveDinnerGroup u d")
  obtain y d2 where y: "dinnerGroup_upsert now r d1 = (y, d2)" by (cases "dinnerGroup_upsert now r d1")
  show ?thesis
  proof (cases x)
    case (Inl e)
    then show ?thesis using l x
      by (simp add: joinDinnerGroup_trace_def joinDinnerGroup_def last_append split: if_splits)
  next
    case (Inr z)
    show ?thesis
    proof (cases y)
      case (Inl e)
      then show ?thesis using l x y Inr
        by (simp add: joinDinnerGroup_trace_def joinDinnerGroup_def)
    next
      case (Inr g)
      obtain c d3 where c: "attendee_create now u (dg_id g) d2 = (c, d3)"
        by (cases "attendee_create now u (dg_id g) d2")
      then show ?thesis using l x y Inr \<open>x = Inr z\<close>
        by (cases c) (simp_all add: joinDinnerGroup_trace_def joinDinnerGroup_def)
    qed
  qed
qed

lemma leave_trace_wf:
  "wf_db d \<Longrightarrow> s \<in> set (leaveDinnerGroup_trace u d) \<Longrightarrow> wf_db s"
  by (auto simp: leaveDinnerGroup_trace_def split: option.splits sum.splits if_splits
      dest: attendee_delete_wf dinnerGroup_delete_wf)

lemma join_trace_wf:
  assumes "wf_db d" "s \<in> set (joinDinnerGroup_trace now u r d)"
  shows "wf_db s"
proof -
  have w1: "wf_db (snd (leaveDinnerGroup u d))" using assms(1) by (rule leaveDinnerGroup_wf)
  have w2: "\<And>d'. wf_db d' \<Longrightarrow> wf_db (snd (dinnerGroup_upsert now r d'))" by (rule dinnerGroup_upsert_wf)
  have w3: "\<And>d' i. wf_db d' \<Longrightarrow> wf_db (snd (attendee_create now u i d'))" by (rule attendee_create_wf)
  have "s \<in> set (leaveDinnerGroup_trace u d) \<Longrightarrow> wf_db s" using assms(1) by (rule leave_trace_wf)
  then show ?thesis using assms(2) w1 w2 w3
    by (auto simp: joinDinnerGroup_trace_def split: prod.splits sum.splits if_splits)
      (metis snd_conv)+
qed

lemma leave_trace_unattached:
  assumes "wf_db d" "u \<noteq> []" "attendee_findUnique u d = Some a"
  shows "\<exists>s \<in> set (leaveDinnerGroup_trace u d). userAttendingRestaurantId (Some u) s = Inr None"
proof -
  obtain g where g: "dinnerGroup_findById (at_dinnerGroupId a) d = Some g"
    using assms(1,3) wf_group_of_attendee find_userId_Some by blast
  have ain: "a \<in> set (attendees d)" "at_userId a = u" using assms(3) by (auto dest: find_userId_Some)
  define d1 where "d1 = d\<lparr>attendees := filter (\<lambda>a. at_userId a \<noteq> u) (attendees d)\<rparr>"
  have del: "attendee_delete u d = Inr d1" using ain by (auto simp: attendee_delete_def d1_def)
  have "attendee_findUnique u d1 = None" by (simp add: find_userId_None d1_def)
  then have un: "userAttendingRestaurantId (Some u) d1 = Inr None"
    using assms(2) by (simp add: userAttendingRestaurantId_def)
  have "d1 \<in> set (leaveDinnerGroup_trace u d)"
    using assms(2,3) g del by (auto simp: leaveDinnerGroup_trace_def split: sum.splits)
  then show ?thesis using un by blast
qed


text \<open>
  Person \<open>ann\<close>, the only attendee at venue \<open>v1\<close>, joins venue \<open>v2\<close>. Read after each
  of the six store calls, her venue is \<open>v1\<close>, then none four times, then \<open>v2\<close>; the group
  of \<open>v1\<close> is gone from the fourth store on, two store calls before her new membership
  exists. She never has two \<open>Attendee\<close> rows.
\<close>

theorem switch_venues_unattached_window:
  "userAttendingRestaurantId (Some ''ann'') (snd (joinDinnerGroup 1 ''ann'' ''v1'' db0)) = Inr (Some ''v1'') \<and>
   fst (joinDinnerGroup 2 ''ann'' ''v2'' (snd (joinDinnerGroup 1 ''ann'' ''v1'' db0))) =
     Inr \<lparr>dg_id = 2, dg_restaurantId = ''v2'', dg_notes = None, dg_createdAt = 2\<rparr> \<and>
   map (userAttendingRestaurantId (Some ''ann''))
     (joinDinnerGroup_trace 2 ''ann'' ''v2'' (snd (joinDinnerGroup 1 ''ann'' ''v1'' db0))) =
     [Inr (Some ''v1''), Inr None, Inr None, Inr None, Inr None, Inr (Some ''v2'')] \<and>
   map (group_exists ''v1'')
     (joinDinnerGroup_trace 2 ''ann'' ''v2'' (snd (joinDinnerGroup 1 ''ann'' ''v1'' db0))) =
     [True, True, True, False, False, False] \<and>
   map (\<lambda>s. length (attendees s))
     (joinDinnerGroup_trace 2 ''ann'' ''v2'' (snd (joinDinnerGroup 1 ''ann'' ''v1'' db0))) =
     [1, 0, 0, 0, 0, 1]"
proof -
  have d: "snd (joinDinnerGroup 1 ''ann'' ''v1'' db0) =
      db0\<lparr>dinnerGroups := [\<lparr>dg_id = 0, dg_restaurantId = ''v1'', dg_notes = None, dg_createdAt = 1\<rparr>],
          attendees := [\<lparr>at_id = 1, at_userId = ''ann'', at_dinnerGroupId = 0, at_createdAt = 1\<rparr>],
          idSeq := 2\<rparr>"
    by (simp add: run_defs)
  show ?thesis
    unfolding d
    by (simp add: run_defs joinDinnerGroup_trace_def leaveDinnerGroup_trace_def
        userAttendingRestaurantId_def group_exists_def)
qed

lemma join_trace_success:
  assumes "joinDinnerGroup now u r d = (Inr g, d')"
  shows "\<exists>d2. joinDinnerGroup_trace now u r d = leaveDinnerGroup_trace u d @ [d2, d']"
proof -
  have ne: "u \<noteq> []" "r \<noteq> []"
    using assms by (auto simp: joinDinnerGroup_def split: if_splits)
  obtain x d1 where l: "leaveDinnerGroup u d = (x, d1)" by (cases "leaveDinnerGroup u d")
  obtain y d2 where up: "dinnerGroup_upsert now r d1 = (y, d2)"
    by (cases "dinnerGroup_upsert now r d1")
  obtain x' where x: "x = Inr x'" using assms ne l by (cases x) (auto simp: joinDinnerGroup_def)
  obtain g' where y: "y = Inr g'"
    using assms ne l x up by (cases y) (auto simp: joinDinnerGroup_def)
  obtain z d3 where cr: "attendee_create now u (dg_id g') d2 = (z, d3)"
    by (cases "attendee_create now u (dg_id g') d2")
  have "d3 = d'" using assms ne l x up y cr by (cases z) (auto simp: joinDinnerGroup_def)
  then have "joinDinnerGroup_trace now u r d = leaveDinnerGroup_trace u d @ [d2, d']"
    using ne l x up y cr by (simp add: joinDinnerGroup_trace_def)
  then show ?thesis by blast
qed

lemma sole_leaver_group_gone_in_trace:
  assumes w: "wf_db d" and j: "joinDinnerGroup now p v d = (Inr g, d')"
    and a: "attendee_findUnique p d = Some a"
    and g: "dinnerGroup_findById (at_dinnerGroupId a) d = Some g0"
    and sole: "sole_attendee p (dg_id g0) d"
  shows "\<exists>i. Suc i < length (joinDinnerGroup_trace now p v d) \<and>
           \<not> group_exists (dg_restaurantId g0) (joinDinnerGroup_trace now p v d ! i) \<and>
           g0 \<notin> set (dinnerGroups (joinDinnerGroup_trace now p v d ! i)) \<and>
           attendee_findUnique p (joinDinnerGroup_trace now p v d ! i) = None"
proof -
  have ne: "p \<noteq> []" using j by (auto simp: joinDinnerGroup_def split: if_splits)
  define L where "L = leaveDinnerGroup_trace p d"
  define s where "s = snd (leaveDinnerGroup p d)"
  have Lne: "L \<noteq> []"
    unfolding L_def using ne by (auto simp: leaveDinnerGroup_trace_def split: option.splits sum.splits)
  have lastL: "last L = s"
    unfolding L_def s_def using leave_trace_last[of d p] Lne[unfolded L_def] by simp
  obtain d2 where T: "joinDinnerGroup_trace now p v d = L @ [d2, d']"
    unfolding L_def using join_trace_success[OF j] by blast
  have l: "fst (leaveDinnerGroup p d) = Inr (Some g0)"
    using leave_attending[OF ne a g] by simp
  have gone: "\<not> group_exists (dg_restaurantId g0) s"
    unfolding s_def using w ne l sole by (rule last_leaver_deletes_group)
  then have notin: "g0 \<notin> set (dinnerGroups s)" by (auto simp: group_exists_def)
  have un: "attendee_findUnique p s = None"
    unfolding s_def using l by (rule leave_Inr_unattached)
  have nth: "(L @ [d2, d']) ! (length L - 1) = s"
    using Lne lastL by (simp add: nth_append last_conv_nth)
  have lt: "Suc (length L - 1) < length (L @ [d2, d'])" using Lne by simp
  show ?thesis
    unfolding T using nth lt gone notin un by metis
qed

text \<open>
  Claim C2, as the code has it. Let person \<open>p\<close> attend some venue in a store that meets
  the constraints, and let a join of \<open>p\<close> to venue \<open>v\<close> return. In every store between
  the store calls of that join, \<open>p\<close> has at most one \<open>Attendee\<close> row (never two groups);
  in at least one of them \<open>p\<close> is read as attending nothing; if \<open>p\<close> was the only
  attendee of the old group, then in a store before the last one that group is deleted, no
  group of its venue exists and \<open>p\<close> has no \<open>Attendee\<close> row; the last store is the one
  join leaves, and there \<open>p\<close> is read as attending \<open>v\<close>.
\<close>

theorem switch_venues_trace:
  assumes "wf_db d" "attendee_findUnique p d = Some a" "joinDinnerGroup now p v d = (Inr g, d')"
  shows "(\<forall>s \<in> set (joinDinnerGroup_trace now p v d).
            length (filter (\<lambda>a. at_userId a = p) (attendees s)) \<le> 1) \<and>
         (\<exists>s \<in> set (joinDinnerGroup_trace now p v d).
            userAttendingRestaurantId (Some p) s = Inr None) \<and>
         (\<forall>g0. dinnerGroup_findById (at_dinnerGroupId a) d = Some g0 \<and>
               sole_attendee p (dg_id g0) d \<longrightarrow>
            (\<exists>i. Suc i < length (joinDinnerGroup_trace now p v d) \<and>
               \<not> group_exists (dg_restaurantId g0) (joinDinnerGroup_trace now p v d ! i) \<and>
               g0 \<notin> set (dinnerGroups (joinDinnerGroup_trace now p v d ! i)) \<and>
               attendee_findUnique p (joinDinnerGroup_trace now p v d ! i) = None)) \<and>
         last (d # joinDinnerGroup_trace now p v d) = d' \<and>
         userAttendingRestaurantId (Some p) d' = Inr (Some v)"
proof -
  have ne: "p \<noteq> []" "v \<noteq> []" using join_Inr_args[OF assms(1), of now p v g] assms(3) by auto
  have one: "\<forall>s \<in> set (joinDinnerGroup_trace now p v d).
      length (filter (\<lambda>a. at_userId a = p) (attendees s)) \<le> 1"
  proof
    fix s assume "s \<in> set (joinDinnerGroup_trace now p v d)"
    then have "wf_db s" using assms(1) join_trace_wf by blast
    then have "distinct (map at_userId (attendees s))" by (simp add: wf_db_def)
    then show "length (filter (\<lambda>a. at_userId a = p) (attendees s)) \<le> 1"
      by (rule distinct_filter_le1)
  qed
  have "\<exists>s \<in> set (leaveDinnerGroup_trace p d). userAttendingRestaurantId (Some p) s = Inr None"
    using assms(1) ne(1) assms(2) by (rule leave_trace_unattached)
  then have win: "\<exists>s \<in> set (joinDinnerGroup_trace now p v d).
      userAttendingRestaurantId (Some p) s = Inr None"
    using ne by (auto simp: joinDinnerGroup_trace_def)
  have grp: "\<forall>g0. dinnerGroup_findById (at_dinnerGroupId a) d = Some g0 \<and>
               sole_attendee p (dg_id g0) d \<longrightarrow>
            (\<exists>i. Suc i < length (joinDinnerGroup_trace now p v d) \<and>
               \<not> group_exists (dg_restaurantId g0) (joinDinnerGroup_trace now p v d ! i) \<and>
               g0 \<notin> set (dinnerGroups (joinDinnerGroup_trace now p v d ! i)) \<and>
               attendee_findUnique p (joinDinnerGroup_trace now p v d ! i) = None)"
    using sole_leaver_group_gone_in_trace[OF assms(1,3,2)] by blast
  have lst: "last (d # joinDinnerGroup_trace now p v d) = d'"
    using join_trace_last[of d now p v] assms(3) by simp
  show ?thesis using one win grp lst join_attending(2)[OF assms(1,3)] by blast
qed

theorem switch_venues_trace_witness:
  "wf_db (db0\<lparr>dinnerGroups := [\<lparr>dg_id = 0, dg_restaurantId = ''v1'', dg_notes = None, dg_createdAt = 1\<rparr>],
          attendees := [\<lparr>at_id = 1, at_userId = ''ann'', at_dinnerGroupId = 0, at_createdAt = 1\<rparr>],
          idSeq := 2\<rparr>) \<and>
   attendee_findUnique ''ann''
      (db0\<lparr>dinnerGroups := [\<lparr>dg_id = 0, dg_restaurantId = ''v1'', dg_notes = None, dg_createdAt = 1\<rparr>],
          attendees := [\<lparr>at_id = 1, at_userId = ''ann'', at_dinnerGroupId = 0, at_createdAt = 1\<rparr>],
          idSeq := 2\<rparr>) =
      Some \<lparr>at_id = 1, at_userId = ''ann'', at_dinnerGroupId = 0, at_createdAt = 1\<rparr> \<and>
   joinDinnerGroup 2 ''ann'' ''v2''
      (db0\<lparr>dinnerGroups := [\<lparr>dg_id = 0, dg_restaurantId = ''v1'', dg_notes = None, dg_createdAt = 1\<rparr>],
          attendees := [\<lparr>at_id = 1, at_userId = ''ann'', at_dinnerGroupId = 0, at_createdAt = 1\<rparr>],
          idSeq := 2\<rparr>) =
     (Inr \<lparr>dg_id = 2, dg_restaurantId = ''v2'', dg_notes = None, dg_createdAt = 2\<rparr>,
      db0\<lparr>dinnerGroups := [\<lparr>dg_id = 2, dg_restaurantId = ''v2'', dg_notes = None, dg_createdAt = 2\<rparr>],
          attendees := [\<lparr>at_id = 3, at_userId = ''ann'', at_dinnerGroupId = 2, at_createdAt = 2\<rparr>],
          idSeq := 4\<rparr>) \<and>
   dinnerGroup_findById 0
      (db0\<lparr>dinnerGroups := [\<lparr>dg_id = 0, dg_restaurantId = ''v1'', dg_notes = None, dg_createdAt = 1\<rparr>],
          attendees := [\<lparr>at_id = 1, at_userId = ''ann'', at_dinnerGroupId = 0, at_createdAt = 1\<rparr>],
          idSeq := 2\<rparr>) =
      Some \<lparr>dg_id = 0, dg_restaurantId = ''v1'', dg_notes = None, dg_createdAt = 1\<rparr> \<and>
   sole_attendee ''ann'' 0
      (db0\<lparr>dinnerGroups := [\<lparr>dg_id = 0, dg_restaurantId = ''v1'', dg_notes = None, dg_createdAt = 1\<rparr>],
          attendees := [\<lparr>at_id = 1, at_userId = ''ann'', at_dinnerGroupId = 0, at_createdAt = 1\<rparr>],
          idSeq := 2\<rparr>) \<and>
   (\<exists>i. Suc i < length (joinDinnerGroup_trace 2 ''ann'' ''v2''
      (db0\<lparr>dinnerGroups := [\<lparr>dg_id = 0, dg_restaurantId = ''v1'', dg_notes = None, dg_createdAt = 1\<rparr>],
          attendees := [\<lparr>at_id = 1, at_userId = ''ann'', at_dinnerGroupId = 0, at_createdAt = 1\<rparr>],
          idSeq := 2\<rparr>)) \<and>
      \<not> group_exists ''v1'' (joinDinnerGroup_trace 2 ''ann'' ''v2''
      (db0\<lparr>dinnerGroups := [\<lparr>dg_id = 0, dg_restaurantId = ''v1'', dg_notes = None, dg_createdAt = 1\<rparr>],
          attendees := [\<lparr>at_id = 1, at_userId = ''ann'', at_dinnerGroupId = 0, at_createdAt = 1\<rparr>],
          idSeq := 2\<rparr>) ! i) \<and>
      attendee_findUnique ''ann'' (joinDinnerGroup_trace 2 ''ann'' ''v2''
      (db0\<lparr>dinnerGroups := [\<lparr>dg_id = 0, dg_restaurantId = ''v1'', dg_notes = None, dg_createdAt = 1\<rparr>],
          attendees := [\<lparr>at_id = 1, at_userId = ''ann'', at_dinnerGroupId = 0, at_createdAt = 1\<rparr>],
          idSeq := 2\<rparr>) ! i) = None) \<and>
   userAttendingRestaurantId (Some ''ann'')
      (db0\<lparr>dinnerGroups := [\<lparr>dg_id = 2, dg_restaurantId = ''v2'', dg_notes = None, dg_createdAt = 2\<rparr>],
          attendees := [\<lparr>at_id = 3, at_userId = ''ann'', at_dinnerGroupId = 2, at_createdAt = 2\<rparr>],
          idSeq := 4\<rparr>) = Inr (Some ''v2'')"
proof -
  define d where "d = db0\<lparr>dinnerGroups := [\<lparr>dg_id = 0, dg_restaurantId = ''v1'', dg_notes = None, dg_createdAt = 1\<rparr>],
          attendees := [\<lparr>at_id = 1, at_userId = ''ann'', at_dinnerGroupId = 0, at_createdAt = 1\<rparr>],
          idSeq := 2\<rparr>"
  have w: "wf_db d" by (simp add: d_def wf_db_def db0_def venue_def)
  have a: "attendee_findUnique ''ann'' d =
      Some \<lparr>at_id = 1, at_userId = ''ann'', at_dinnerGroupId = 0, at_createdAt = 1\<rparr>"
    by (simp add: d_def run_defs)
  have j: "joinDinnerGroup 2 ''ann'' ''v2'' d =
     (Inr \<lparr>dg_id = 2, dg_restaurantId = ''v2'', dg_notes = None, dg_createdAt = 2\<rparr>,
      db0\<lparr>dinnerGroups := [\<lparr>dg_id = 2, dg_restaurantId = ''v2'', dg_notes = None, dg_createdAt = 2\<rparr>],
          attendees := [\<lparr>at_id = 3, at_userId = ''ann'', at_dinnerGroupId = 2, at_createdAt = 2\<rparr>],
          idSeq := 4\<rparr>)"
    by (simp add: d_def run_defs)
  have g: "dinnerGroup_findById 0 d =
      Some \<lparr>dg_id = 0, dg_restaurantId = ''v1'', dg_notes = None, dg_createdAt = 1\<rparr>"
    by (simp add: d_def run_defs)
  have s: "sole_attendee ''ann'' 0 d" by (simp add: d_def sole_attendee_def db0_def)
  have "\<exists>i. Suc i < length (joinDinnerGroup_trace 2 ''ann'' ''v2'' d) \<and>
      \<not> group_exists ''v1'' (joinDinnerGroup_trace 2 ''ann'' ''v2'' d ! i) \<and>
      attendee_findUnique ''ann'' (joinDinnerGroup_trace 2 ''ann'' ''v2'' d ! i) = None"
    using switch_venues_trace[OF w a j] g s by fastforce
  then show ?thesis
    using switch_venues_trace[OF w a j] w a j g s unfolding d_def by simp
qed

section \<open>C9: the distance of one degree of longitude\<close>

lemma sin_poly7:
  "(\<Sum>m<8. sin_coeff m * x ^ m) = x - x^3 / 6 + x^5 / 120 - x^7 / 5040" for x :: real
  by (simp add: eval_nat_numeral sin_coeff_Suc cos_coeff_Suc)

lemma sin_taylor7:
  "\<bar>sin x - (x - x^3 / 6 + x^5 / 120 - x^7 / 5040)\<bar> \<le> \<bar>x\<bar> ^ 8 / 40320" for x :: real
  using Maclaurin_sin_bound[of x 8] by (simp add: sin_poly7 fact_numeral)

lemma pi_lower: "314154 / 100000 < pi"
proof (rule ccontr)
  assume "\<not> 314154 / 100000 < pi"
  then have le: "pi / 6 \<le> 52359 / 100000" by simp
  have "sin (pi / 6) \<le> sin (52359 / 100000)"
    using le pi_ge_two by (intro sin_monotone_2pi_le) auto
  then have h: "1 / 2 \<le> sin (52359 / 100000 :: real)" by (simp add: sin_30)
  have "sin (52359 / 100000 :: real) -
      (52359 / 100000 - (52359 / 100000)^3 / 6 + (52359 / 100000)^5 / 120 - (52359 / 100000)^7 / 5040)
      \<le> \<bar>52359 / 100000\<bar> ^ 8 / 40320"
    using sin_taylor7[of "52359 / 100000"] by linarith
  then have "sin (52359 / 100000 :: real) < 1 / 2"
    by (simp add: power_divide)
  then show False using h by simp
qed

lemma pi_upper: "pi < 31416 / 10000"
proof (rule ccontr)
  assume "\<not> pi < 31416 / 10000"
  then have le: "5236 / 10000 \<le> pi / 6" by simp
  have "sin (5236 / 10000) \<le> sin (pi / 6)"
    using le by (intro sin_monotone_2pi_le) auto
  then have h: "sin (5236 / 10000 :: real) \<le> 1 / 2" by (simp add: sin_30)
  have "(5236 / 10000 - (5236 / 10000)^3 / 6 + (5236 / 10000)^5 / 120 - (5236 / 10000)^7 / 5040)
      - sin (5236 / 10000 :: real) \<le> \<bar>5236 / 10000\<bar> ^ 8 / 40320"
    using sin_taylor7[of "5236 / 10000"] by linarith
  then have "1 / 2 < sin (5236 / 10000 :: real)"
    by (simp add: power_divide)
  then show False using h by simp
qed

lemma haversine_same_point: "haversine_miles x y x y = 0"
  by (simp add: haversine_miles_def atan2_def)

lemma haversine_one_degree: "haversine_miles 0 0 0 1 = 39588 / 10 * (pi / 180)"
proof -
  define t where "t = pi / 360"
  have t: "0 < t" "t < pi / 2" by (simp_all add: t_def)
  have s: "0 < sin t" using t by (intro sin_gt_zero2) auto
  have c: "0 < cos t" using t by (intro cos_gt_zero) auto
  have a: "sin t * sin t = (sin t)\<^sup>2" by (simp add: power2_eq_square)
  have "1 - (sin t)\<^sup>2 = (cos t)\<^sup>2" using sin_cos_squared_add[of t] by linarith
  then have sq: "sqrt (1 - (sin t)\<^sup>2) = cos t" using c by simp
  have sq': "sqrt ((sin t)\<^sup>2) = sin t" using s by simp
  have "atan2 (sin t) (cos t) = arctan (tan t)" using c by (simp add: atan2_def tan_def)
  also have "\<dots> = t" using t by (intro arctan_tan) auto
  finally have at: "atan2 (sin t) (cos t) = t" .
  have "haversine_miles 0 0 0 1 = 39588 / 10 * (2 * atan2 (sqrt ((sin t)\<^sup>2)) (sqrt (1 - (sin t)\<^sup>2)))"
    by (simp add: haversine_miles_def Let_def t_def power2_eq_square)
  then show ?thesis using sq sq' at by (simp add: t_def)
qed

lemma haversine_one_degree_bounds:
  "6909 / 100 < haversine_miles 0 0 0 1 \<and> haversine_miles 0 0 0 1 < 6910 / 100"
  using pi_lower pi_upper by (simp add: haversine_one_degree)

lemma toFixed1_near:
  assumes "6905 / 100 \<le> x" "x < 6915 / 100"
  shows "toFixed1 x = 691 / 10"
proof -
  have "round (x * 10) = 691"
    using assms by (intro round_unique) auto
  then show ?thesis using assms by (simp add: toFixed1_def)
qed


lemma toFixed1_zero: "toFixed1 0 = 0"
  by (simp add: toFixed1_def)

text \<open>
  With the radius 3958.8 of the source, one degree of longitude on the equator is
  \<open>3958.8 * pi / 180\<close> miles, below 69.10; \<open>calculateDistance\<close> returns 69.1, while 69.17
  rounded to one decimal place is 69.2.
\<close>

theorem distance_one_degree_is_not_69_17:
  "calculateDistance 0 0 0 1 = 691 / 10 \<and>
   haversine_miles 0 0 0 1 < 6910 / 100 \<and>
   toFixed1 (6917 / 100) = 692 / 10 \<and>
   calculateDistance 0 0 0 1 \<noteq> toFixed1 (6917 / 100) \<and>
   \<not> \<bar>calculateDistance 0 0 0 1 - 6917 / 100\<bar> < 5 / 100"
proof -
  have b: "6909 / 100 < haversine_miles 0 0 0 1" "haversine_miles 0 0 0 1 < 6910 / 100"
    using haversine_one_degree_bounds by auto
  have c: "calculateDistance 0 0 0 1 = 691 / 10"
    unfolding calculateDistance_def using b by (intro toFixed1_near) auto
  have "round (6917 / 100 * 10 :: real) = 692" by (intro round_unique) auto
  then have r: "toFixed1 (6917 / 100) = 692 / 10" by (simp add: toFixed1_def)
  show ?thesis using b c r by simp
qed

text \<open>
  Claim C9, as the code has it. \<open>calculateDistance\<close> is the haversine formula with
  radius 3958.8 miles, rounded to one decimal place. From (0, 0) to (0, 1 degree) the
  formula yields \<open>3958.8 * pi / 180\<close> miles, between 69.09 and 69.10, and the function
  returns 69.1, also for any intermediate value within 0.04 mile of the exact one; from
  any point to itself it returns 0.
\<close>

theorem distance_values:
  "calculateDistance lat1 lng1 lat2 lng2 = toFixed1 (haversine_miles lat1 lng1 lat2 lng2) \<and>
   haversine_miles 0 0 0 1 = 39588 / 10 * (pi / 180) \<and>
   6909 / 100 < haversine_miles 0 0 0 1 \<and> haversine_miles 0 0 0 1 < 6910 / 100 \<and>
   calculateDistance 0 0 0 1 = 691 / 10 \<and>
   (\<forall>e. \<bar>e\<bar> \<le> 4 / 100 \<longrightarrow> toFixed1 (haversine_miles 0 0 0 1 + e) = 691 / 10) \<and>
   haversine_miles x y x y = 0 \<and>
   calculateDistance x y x y = 0"
proof -
  have b: "6909 / 100 < haversine_miles 0 0 0 1" "haversine_miles 0 0 0 1 < 6910 / 100"
    using haversine_one_degree_bounds by auto
  have c: "calculateDistance 0 0 0 1 = 691 / 10"
    unfolding calculateDistance_def using b by (intro toFixed1_near) auto
  have e: "\<forall>e. \<bar>e\<bar> \<le> 4 / 100 \<longrightarrow> toFixed1 (haversine_miles 0 0 0 1 + e) = 691 / 10"
  proof (intro allI impI)
    fix e :: real assume "\<bar>e\<bar> \<le> 4 / 100"
    then show "toFixed1 (haversine_miles 0 0 0 1 + e) = 691 / 10"
      using b by (intro toFixed1_near) auto
  qed
  have z: "calculateDistance x y x y = 0"
    by (simp add: calculateDistance_def haversine_same_point toFixed1_zero)
  have d: "calculateDistance lat1 lng1 lat2 lng2 = toFixed1 (haversine_miles lat1 lng1 lat2 lng2)"
    by (simp add: calculateDistance_def)
  show ?thesis
    using d haversine_one_degree b c e haversine_same_point[of x y] z by blast
qed

theorem distance_values_witness:
  "\<bar>0 :: real\<bar> \<le> 4 / 100 \<and> toFixed1 (haversine_miles 0 0 0 1 + 0) = 691 / 10 \<and>
   calculateDistance 0 0 0 1 = 691 / 10 \<and>
   calculateDistance (407596 / 10000) (- 1118867 / 10000) (407596 / 10000) (- 1118867 / 10000) = 0"
  using distance_values[of 0 0 0 1 "407596 / 10000" "- 1118867 / 10000"]
  by simp

section \<open>C5: the freshness window of the venue cache\<close>

lemma fetch_calls:
  "adapterCalls (snd (fetchAndUpsertRestaurants ad t lat lng radius w)) = Suc (adapterCalls w)"
  by (simp add: fetchAndUpsertRestaurants_def split: sum.splits)

lemma fetch_lru:
  "lru (snd (fetchAndUpsertRestaurants ad t lat lng radius w)) = lru w"
  by (simp add: fetchAndUpsertRestaurants_def split: sum.splits)

lemma cachified_hit:
  assumes "lru w key = Some e" "t - ce_createdTime e < ttl"
  shows "cachified key ttl t f w = (Inr (ce_value e), w)"
  using assms by (simp add: cachified_def)

lemma cachified_miss:
  assumes "lru w key = None \<or> (\<exists>e. lru w key = Some e \<and> \<not> t - ce_createdTime e < ttl)"
  shows "cachified key ttl t f w =
     (case f w of
        (Inl err, w') \<Rightarrow> (Inl err, w')
      | (Inr v, w') \<Rightarrow> (Inr v, w'\<lparr>lru := (lru w')(key \<mapsto> \<lparr>ce_value = v, ce_createdTime = t\<rparr>)\<rparr>))"
  using assms by (auto simp: cachified_def)

lemma cachified_fetch_miss:
  assumes "lru w key = None \<or> (\<exists>e. lru w key = Some e \<and> \<not> t - ce_createdTime e < ttl)"
  shows "adapterCalls (snd (cachified key ttl t (fetchAndUpsertRestaurants ad t lat lng radius) w))
           = Suc (adapterCalls w)"
    and "fst (cachified key ttl t (fetchAndUpsertRestaurants ad t lat lng radius) w) = Inr rs \<Longrightarrow>
         lru (snd (cachified key ttl t (fetchAndUpsertRestaurants ad t lat lng radius) w)) key
           = Some \<lparr>ce_value = rs, ce_createdTime = t\<rparr>"
proof -
  obtain y w' where f: "fetchAndUpsertRestaurants ad t lat lng radius w = (y, w')"
    by (cases "fetchAndUpsertRestaurants ad t lat lng radius w")
  have c: "adapterCalls w' = Suc (adapterCalls w)"
    using fetch_calls[of ad t lat lng radius w] f by simp
  show "adapterCalls (snd (cachified key ttl t (fetchAndUpsertRestaurants ad t lat lng radius) w))
           = Suc (adapterCalls w)"
    unfolding cachified_miss[OF assms] using f c by (cases y) auto
  show "fst (cachified key ttl t (fetchAndUpsertRestaurants ad t lat lng radius) w) = Inr rs \<Longrightarrow>
         lru (snd (cachified key ttl t (fetchAndUpsertRestaurants ad t lat lng radius) w)) key
           = Some \<lparr>ce_value = rs, ce_createdTime = t\<rparr>"
    unfolding cachified_miss[OF assms] using f by (cases y) auto
qed

lemma cachified_fetch_calls_le:
  "adapterCalls (snd (cachified key ttl t (fetchAndUpsertRestaurants ad t lat lng radius) w))
     \<le> Suc (adapterCalls w)"
proof (cases "lru w key = None \<or> (\<exists>e. lru w key = Some e \<and> \<not> t - ce_createdTime e < ttl)")
  case True
  then show ?thesis using cachified_fetch_miss(1)[OF True] by simp
next
  case False
  then obtain e where "lru w key = Some e" "t - ce_createdTime e < ttl" by auto
  then show ?thesis by (simp add: cachified_hit)
qed

lemma getAll_world:
  "snd (getAllRestaurantDetails numStr ad t lat lng ro u w) =
   snd (cachified (cache_key numStr lat lng (radius_of ro)) RESTAURANTS_TTL t
          (fetchAndUpsertRestaurants ad t lat lng (radius_of ro)) w)"
  by (simp add: getAllRestaurantDetails_def radius_of_def Let_def split: prod.splits sum.splits)

lemma getAll_Inr:
  assumes "fst (getAllRestaurantDetails numStr ad t lat lng ro u w) = Inr x"
  shows "fst (cachified (cache_key numStr lat lng (radius_of ro)) RESTAURANTS_TTL t
          (fetchAndUpsertRestaurants ad t lat lng (radius_of ro)) w) = Inr (map restaurant.truncate x)"
  using assms
  by (auto simp: getAllRestaurantDetails_def radius_of_def Let_def comp_def
      restaurant.truncate_def restaurant.extend_def
      split: prod.splits sum.splits intro!: nth_equalityI)

lemma cachified_Inr_entry:
  assumes "fst (cachified key ttl t (fetchAndUpsertRestaurants ad t lat lng radius) w) = Inr rs"
  shows "\<exists>e. lru (snd (cachified key ttl t (fetchAndUpsertRestaurants ad t lat lng radius) w)) key = Some e
            \<and> ce_value e = rs"
proof (cases "lru w key = None \<or> (\<exists>e. lru w key = Some e \<and> \<not> t - ce_createdTime e < ttl)")
  case True
  then show ?thesis using cachified_fetch_miss(2)[OF True assms] by simp
next
  case False
  then obtain e where e: "lru w key = Some e" "t - ce_createdTime e < ttl" by auto
  then show ?thesis using assms by (simp add: cachified_hit)
qed

text \<open>
  Claim C5. Let a call of \<open>getAllRestaurantDetails\<close> at time \<open>t1\<close> return. A second call
  with the same latitude, longitude and radius at a time \<open>t2\<close> within the window after
  \<open>t1\<close> brings the number of adapter calls to at most one more than before the first. If
  the first call found no fresh entry, it called the adapter once; the second call then
  leaves the cache, the store and the call count as they are and returns the cached venues
  (the same result for the same person); and a call at or after \<open>t1\<close> plus the window
  calls the adapter once more.
\<close>

theorem cache_freshness:
  assumes "getAllRestaurantDetails numStr ad t1 lat lng ro u1 w = (Inr x1, w1)"
  shows "(t1 \<le> t2 \<and> t2 < t1 + RESTAURANTS_TTL \<longrightarrow>
            adapterCalls (snd (getAllRestaurantDetails numStr ad t2 lat lng ro u2 w1))
              \<le> adapterCalls w + 1) \<and>
         (\<not> has_fresh (cache_key numStr lat lng (radius_of ro)) t1 w \<longrightarrow>
            adapterCalls w1 = adapterCalls w + 1 \<and>
            (t1 \<le> t2 \<and> t2 < t1 + RESTAURANTS_TTL \<longrightarrow>
               snd (getAllRestaurantDetails numStr ad t2 lat lng ro u2 w1) = w1 \<and>
               getAllRestaurantDetails numStr ad t2 lat lng ro u1 w1 = (Inr x1, w1) \<and>
               (\<forall>x2. fst (getAllRestaurantDetails numStr ad t2 lat lng ro u2 w1) = Inr x2 \<longrightarrow>
                  map restaurant.truncate x2 = map restaurant.truncate x1)) \<and>
            (t1 + RESTAURANTS_TTL \<le> t3 \<longrightarrow>
               adapterCalls (snd (getAllRestaurantDetails numStr ad t3 lat lng ro u3 w1))
                 = adapterCalls w1 + 1))"
proof -
  define key where "key = cache_key numStr lat lng (radius_of ro)"
  define C where "C = (\<lambda>t w. cachified key RESTAURANTS_TTL t
      (fetchAndUpsertRestaurants ad t lat lng (radius_of ro)) w)"
  have world: "\<And>t u w. snd (getAllRestaurantDetails numStr ad t lat lng ro u w) = snd (C t w)"
    unfolding C_def key_def by (rule getAll_world)
  have res: "\<And>t u w x. fst (getAllRestaurantDetails numStr ad t lat lng ro u w) = Inr x \<Longrightarrow>
      fst (C t w) = Inr (map restaurant.truncate x)"
    unfolding C_def key_def by (rule getAll_Inr)
  have w1: "snd (C t1 w) = w1" using world[of t1 u1 w] assms by simp
  have r1: "fst (C t1 w) = Inr (map restaurant.truncate x1)" using res[of t1 u1 w x1] assms by simp
  have le: "\<And>t w. adapterCalls (snd (C t w)) \<le> Suc (adapterCalls w)"
    unfolding C_def by (rule cachified_fetch_calls_le)
  have hit: "\<And>t w e. lru w key = Some e \<Longrightarrow> t - ce_createdTime e < RESTAURANTS_TTL \<Longrightarrow>
      C t w = (Inr (ce_value e), w)"
    unfolding C_def by (rule cachified_hit)
  have stale: "\<not> has_fresh key t w' \<longleftrightarrow>
      (lru w' key = None \<or> (\<exists>e. lru w' key = Some e \<and> \<not> t - ce_createdTime e < RESTAURANTS_TTL))"
    for t w'
    by (auto simp: has_fresh_def split: option.splits)
  have miss: "adapterCalls (snd (C t w')) = Suc (adapterCalls w')" if "\<not> has_fresh key t w'" for t w'
    using that unfolding stale C_def by (rule cachified_fetch_miss(1))
  have entry: "lru (snd (C t w')) key = Some \<lparr>ce_value = rs, ce_createdTime = t\<rparr>"
    if "\<not> has_fresh key t w'" "fst (C t w') = Inr rs" for t w' rs
    using that unfolding stale C_def by (rule cachified_fetch_miss(2))
  have sameu: "getAllRestaurantDetails numStr ad t' lat lng ro u w' =
      getAllRestaurantDetails numStr ad t lat lng ro u w''"
    if "C t' w' = C t w''" for t t' u w' w''
    using that unfolding C_def key_def
    by (simp add: getAllRestaurantDetails_def radius_of_def Let_def)
  have c1w: "C t1 w = (Inr (map restaurant.truncate x1), w1)"
    using r1 w1 by (simp add: prod_eq_iff)
  have age: "t2 - t1 < RESTAURANTS_TTL" if "t1 \<le> t2 \<and> t2 < t1 + RESTAURANTS_TTL"
    using that by linarith
  have a: "adapterCalls (snd (getAllRestaurantDetails numStr ad t2 lat lng ro u2 w1)) \<le> adapterCalls w + 1"
    if t: "t1 \<le> t2 \<and> t2 < t1 + RESTAURANTS_TTL"
  proof (cases "has_fresh key t1 w")
    case True
    then obtain e where e: "lru w key = Some e" "t1 - ce_createdTime e < RESTAURANTS_TTL"
      by (auto simp: has_fresh_def split: option.splits)
    then have "w1 = w" using hit[OF e] w1 by simp
    then show ?thesis using le[of t2 w] world[of t2 u2 w] by simp
  next
    case False
    have e: "lru w1 key = Some \<lparr>ce_value = map restaurant.truncate x1, ce_createdTime = t1\<rparr>"
      using entry[OF False r1] w1 by simp
    have "C t2 w1 = (Inr (map restaurant.truncate x1), w1)"
      using hit[OF e, of t2] age[OF t] by simp
    then show ?thesis using world[of t2 u2 w1] miss[OF False] w1 by simp
  qed
  have b: "adapterCalls w1 = adapterCalls w + 1 \<and>
            (t1 \<le> t2 \<and> t2 < t1 + RESTAURANTS_TTL \<longrightarrow>
               snd (getAllRestaurantDetails numStr ad t2 lat lng ro u2 w1) = w1 \<and>
               getAllRestaurantDetails numStr ad t2 lat lng ro u1 w1 = (Inr x1, w1) \<and>
               (\<forall>x2. fst (getAllRestaurantDetails numStr ad t2 lat lng ro u2 w1) = Inr x2 \<longrightarrow>
                  map restaurant.truncate x2 = map restaurant.truncate x1)) \<and>
            (t1 + RESTAURANTS_TTL \<le> t3 \<longrightarrow>
               adapterCalls (snd (getAllRestaurantDetails numStr ad t3 lat lng ro u3 w1))
                 = adapterCalls w1 + 1)"
    if st: "\<not> has_fresh key t1 w"
  proof -
    have e: "lru w1 key = Some \<lparr>ce_value = map restaurant.truncate x1, ce_createdTime = t1\<rparr>"
      using entry[OF st r1] w1 by simp
    have c1: "adapterCalls w1 = adapterCalls w + 1" using miss[OF st] w1 by simp
    have c2: "snd (getAllRestaurantDetails numStr ad t2 lat lng ro u2 w1) = w1 \<and>
               getAllRestaurantDetails numStr ad t2 lat lng ro u1 w1 = (Inr x1, w1) \<and>
               (\<forall>x2. fst (getAllRestaurantDetails numStr ad t2 lat lng ro u2 w1) = Inr x2 \<longrightarrow>
                  map restaurant.truncate x2 = map restaurant.truncate x1)"
      if t: "t1 \<le> t2 \<and> t2 < t1 + RESTAURANTS_TTL"
    proof -
      have h2: "C t2 w1 = (Inr (map restaurant.truncate x1), w1)"
        using hit[OF e, of t2] age[OF t] by simp
      have same: "getAllRestaurantDetails numStr ad t2 lat lng ro u1 w1 = (Inr x1, w1)"
        using sameu[of t2 w1 t1 w u1] h2 c1w assms by simp
      have s: "snd (getAllRestaurantDetails numStr ad t2 lat lng ro u2 w1) = w1"
        using world[of t2 u2 w1] h2 by simp
      have x: "map restaurant.truncate x2 = map restaurant.truncate x1"
        if "fst (getAllRestaurantDetails numStr ad t2 lat lng ro u2 w1) = Inr x2" for x2
        using res[OF that] h2 by simp
      show ?thesis using s same x by blast
    qed
    have c3: "adapterCalls (snd (getAllRestaurantDetails numStr ad t3 lat lng ro u3 w1))
                 = adapterCalls w1 + 1"
      if t: "t1 + RESTAURANTS_TTL \<le> t3"
    proof -
      have "\<not> t3 - t1 < RESTAURANTS_TTL" using t by linarith
      then have "\<not> has_fresh key t3 w1" using e by (simp add: has_fresh_def)
      then show ?thesis using miss[of t3 w1] world[of t3 u3 w1] by simp
    qed
    show ?thesis using c1 c2 c3 by blast
  qed
  show ?thesis using a b unfolding key_def by blast
qed


theorem cache_freshness_witness:
  "\<exists>x1 w1.
     getAllRestaurantDetails numStr0 adapter0 100 0 0 None None world0 = (Inr x1, w1) \<and>
     \<not> has_fresh (cache_key numStr0 0 0 (radius_of None)) 100 world0 \<and>
     (100::nat) \<le> 200 \<and> 200 < 100 + RESTAURANTS_TTL \<and>
     adapterCalls world0 = 0 \<and>
     adapterCalls w1 = 1 \<and>
     getAllRestaurantDetails numStr0 adapter0 200 0 0 None None w1 = (Inr x1, w1) \<and>
     adapterCalls (snd (getAllRestaurantDetails numStr0 adapter0 (100 + RESTAURANTS_TTL) 0 0 None None w1)) = 2"
proof -
  obtain x1 w1 where j: "getAllRestaurantDetails numStr0 adapter0 100 0 0 None None world0 = (Inr x1, w1)"
    by (simp add: getAllRestaurantDetails_def cachified_def fetchAndUpsertRestaurants_def
        world0_def adapter0_def userAttendingRestaurantId_def Let_def)
  have st: "\<not> has_fresh (cache_key numStr0 0 0 (radius_of None)) 100 world0"
    by (simp add: has_fresh_def world0_def)
  have t: "(100::nat) \<le> 200 \<and> 200 < 100 + RESTAURANTS_TTL" by (simp add: RESTAURANTS_TTL_def)
  have z: "adapterCalls world0 = 0" by (simp add: world0_def)
  show ?thesis
    using cache_freshness[OF j, of 200 None "100 + RESTAURANTS_TTL" None] j st t z
    by auto
qed

end
